theory Spec2Isabelle
  imports Main
begin

section \<open>The id-addressable heap of TD6/heap\_id.hpp\<close>

text \<open>
  A shallow embedding of the class template \<open>Heap_Id\<close> of
  \<^verbatim>\<open>src/TD6/heap_id.hpp\<close>.

  \<^item> \<open>unsigned int\<close> values are natural numbers below \<open>2^32\<close>; every subtraction,
    increment and multiplication of the source that can leave that range has its
    wrap-around written out (\<open>usub\<close>, \<open>uincr\<close>, \<open>mod UINT_RANGE\<close>).
  \<^item> The header undefines \<open>NDEBUG\<close> before including \<open>assert.h\<close>, so every
    \<open>assert\<close> is live: a failed assertion aborts the program, which is the outcome
    \<open>AssertionFailed\<close>.
  \<^item> A read or write outside an array is undefined behaviour in C++; the embedding stops
    there with the outcome \<open>OutOfBounds\<close>. Dereferencing a pointer that refers to no
    object (the null pointer of a never-used slot included) is \<open>InvalidPointer\<close>, and
    incrementing an \<open>int\<close> past \<open>INT_MAX\<close> is \<open>SignedOverflow\<close>.
  \<^item> The heap stores pointers to elements owned by the caller. The caller's objects are
    the store \<open>mem\<close>, a map from addresses to values, which the heap only reads.
  \<^item> \<open>lower\<close> is a loop whose index can wrap around; it is a partial function, and the
    value \<open>None\<close> stands for a call that never returns.
\<close>

subsection \<open>Outcomes\<close>

datatype error = AssertionFailed | OutOfBounds | InvalidPointer | SignedOverflow

definition bindE :: "error + 'a \<Rightarrow> ('a \<Rightarrow> error + 'b) \<Rightarrow> error + 'b" where
  "bindE m f = (case m of Inl e \<Rightarrow> Inl e | Inr x \<Rightarrow> f x)"

definition assert_that :: "bool \<Rightarrow> error + unit" where
  "assert_that b = (if b then Inr () else Inl AssertionFailed)"

subsection \<open>Unsigned arithmetic\<close>

definition UINT_RANGE :: nat where
  "UINT_RANGE = 4294967296"

definition usub :: "nat \<Rightarrow> nat \<Rightarrow> nat" where
  \<comment> \<open>\<open>a - b\<close> on \<open>unsigned int\<close>\<close>
  "usub a b = (a + UINT_RANGE - b) mod UINT_RANGE"

definition uincr :: "nat \<Rightarrow> nat" where
  \<comment> \<open>\<open>a++\<close> on \<open>unsigned int\<close>\<close>
  "uincr a = (a + 1) mod UINT_RANGE"

subsection \<open>Data\<close>

type_synonym ptr = nat

definition nullptr :: ptr where
  "nullptr = 0"

text \<open>\<open>typedef std::pair<Element*, unsigned int> Node\<close>\<close>

type_synonym Node = "ptr \<times> nat"

text \<open>
  The fields of the class. \<open>elements\<close> is the array of \<open>capacity\<close> nodes.
  \<open>id_to_pos\<close> and \<open>id_free\<close> are arrays of \<open>unsigned int\<close> allocated with
  \<open>new unsigned int [_capacity]\<close>, which leaves their cells indeterminate: a cell is
  \<open>None\<close> until the code writes it.
\<close>

record Heap_Id =
  capacity :: nat
  elements :: "Node list"
  nb_elem :: nat
  id_to_pos :: "nat option list"
  id_free :: "nat option list"

definition elem_read :: "Heap_Id \<Rightarrow> nat \<Rightarrow> error + Node" where
  \<comment> \<open>\<open>elements[i]\<close> as an rvalue\<close>
  "elem_read h i = (if i < length (elements h) then Inr (elements h ! i) else Inl OutOfBounds)"

definition elem_write :: "Heap_Id \<Rightarrow> nat \<Rightarrow> Node \<Rightarrow> error + Heap_Id" where
  \<comment> \<open>\<open>elements[i] = n\<close>\<close>
  "elem_write h i n =
     (if i < length (elements h) then Inr (h\<lparr>elements := (elements h)[i := n]\<rparr>)
      else Inl OutOfBounds)"

definition deref :: "(ptr \<rightharpoonup> 'e) \<Rightarrow> ptr \<Rightarrow> error + 'e" where
  \<comment> \<open>\<open>*p\<close>\<close>
  "deref mem p = (case mem p of None \<Rightarrow> Inl InvalidPointer | Some v \<Rightarrow> Inr v)"

definition value_at :: "(ptr \<rightharpoonup> 'e) \<Rightarrow> Heap_Id \<Rightarrow> nat \<Rightarrow> error + 'e" where
  \<comment> \<open>\<open>*((elements[i]).first)\<close>, which the source also writes \<open>*(elements[i])\<close>\<close>
  "value_at mem h i = bindE (elem_read h i) (\<lambda>n. deref mem (fst n))"

subsection \<open>Private methods\<close>

definition lt :: "(ptr \<rightharpoonup> 'e::linorder) \<Rightarrow> Heap_Id \<Rightarrow> nat \<Rightarrow> nat \<Rightarrow> error + bool" where
  "lt mem h pos_1 pos_2 =
     bindE (assert_that (pos_1 < nb_elem h)) (\<lambda>_.
     bindE (assert_that (pos_2 < nb_elem h)) (\<lambda>_.
     bindE (value_at mem h pos_1) (\<lambda>a.
     bindE (value_at mem h pos_2) (\<lambda>b. Inr (a < b)))))"

definition le :: "(ptr \<rightharpoonup> 'e::linorder) \<Rightarrow> Heap_Id \<Rightarrow> nat \<Rightarrow> nat \<Rightarrow> error + bool" where
  "le mem h pos_1 pos_2 =
     bindE (assert_that (pos_1 < nb_elem h)) (\<lambda>_.
     bindE (assert_that (pos_2 < nb_elem h)) (\<lambda>_.
     bindE (value_at mem h pos_1) (\<lambda>a.
     bindE (value_at mem h pos_2) (\<lambda>b. Inr (a \<le> b)))))"

definition get_pos_left_son :: "Heap_Id \<Rightarrow> nat \<Rightarrow> error + nat" where
  "get_pos_left_son h i =
     bindE (assert_that (i < nb_elem h)) (\<lambda>_. Inr ((2 * i + 1) mod UINT_RANGE))"

definition get_pos_right_son :: "Heap_Id \<Rightarrow> nat \<Rightarrow> error + nat" where
  "get_pos_right_son h i =
     bindE (assert_that (i < nb_elem h)) (\<lambda>_. Inr ((2 * i + 2) mod UINT_RANGE))"

definition get_pos_father :: "Heap_Id \<Rightarrow> nat \<Rightarrow> error + nat" where
  "get_pos_father h i =
     bindE (assert_that (i < usub (nb_elem h) 2)) (\<lambda>_. Inr (usub i 1 div 2))"

definition swap :: "Heap_Id \<Rightarrow> nat \<Rightarrow> nat \<Rightarrow> error + Heap_Id" where
  "swap h pos_a pos_b =
     bindE (assert_that (pos_a \<le> nb_elem h)) (\<lambda>_.
     bindE (assert_that (pos_b \<le> nb_elem h)) (\<lambda>_.
     bindE (elem_read h pos_b) (\<lambda>e.
     bindE (elem_read h pos_a) (\<lambda>a.
     bindE (elem_write h pos_b a) (\<lambda>h1.
     elem_write h1 pos_a e)))))"

text \<open>
  \<open>is_valid\<close> compares nodes, not elements: \<open>elements[i] > elements[j]\<close> is the
  lexicographic order of \<open>std::pair\<close> on the pointer and then the id.
\<close>

definition node_gt :: "Node \<Rightarrow> Node \<Rightarrow> bool" where
  "node_gt a b = (fst b < fst a \<or> (\<not> fst a < fst b \<and> snd b < snd a))"

fun is_valid_loop :: "Heap_Id \<Rightarrow> nat list \<Rightarrow> error + bool" where
  "is_valid_loop h [] = Inr True"
| "is_valid_loop h (i # rest) =
     bindE (elem_read h i) (\<lambda>a.
     bindE (get_pos_right_son h i) (\<lambda>r.
     bindE (elem_read h r) (\<lambda>b.
     if node_gt a b then Inr False
     else
       bindE (get_pos_left_son h i) (\<lambda>l.
       bindE (elem_read h l) (\<lambda>c.
       if node_gt a c then Inr False else is_valid_loop h rest)))))"

definition is_empty :: "Heap_Id \<Rightarrow> bool" where
  "is_empty h = (nb_elem h = 0)"

text \<open>
  \<^verbatim>\<open>
  if(is_empty() || nb_elem==1 || nb_elem==2) return true;
  for(int i=0; i<nb_elem-2;i++){
    if(elements[i]>elements[get_pos_right_son(i)] || elements[i]>elements[get_pos_left_son(i)])
      return false;
  }
  return true;
  \<close>
  The counter is an \<open>int\<close>, compared as \<open>unsigned int\<close>: it takes the values
  \<open>0 .. nb_elem - 3\<close>, and the increment after the value \<open>INT_MAX = 2^31 - 1\<close>
  overflows.
\<close>

definition is_valid :: "Heap_Id \<Rightarrow> error + bool" where
  "is_valid h =
     (if is_empty h \<or> nb_elem h = 1 \<or> nb_elem h = 2 then Inr True
      else
        bindE (is_valid_loop h [0 ..< min (usub (nb_elem h) 2) 2147483648]) (\<lambda>ok.
        if ok \<and> 2147483648 \<le> usub (nb_elem h) 2 then Inl SignedOverflow else Inr ok))"

subsection \<open>raise\<close>

text \<open>
  The loop of \<open>raise\<close>, split into its condition and its body.
  \<^verbatim>\<open>
  while(pos>0 && *(elements[pos]) < *(elements[get_pos_father(pos)])){
    swap(pos,get_pos_father(pos));
    pos=get_pos_father(pos);
  }
  \<close>
\<close>

definition raise_cond :: "(ptr \<rightharpoonup> 'e::linorder) \<Rightarrow> Heap_Id \<Rightarrow> nat \<Rightarrow> error + bool" where
  "raise_cond mem h pos =
     (if 0 < pos then
        bindE (value_at mem h pos) (\<lambda>a.
        bindE (get_pos_father h pos) (\<lambda>f.
        bindE (value_at mem h f) (\<lambda>b. Inr (a < b))))
      else Inr False)"

definition raise_body :: "Heap_Id \<Rightarrow> nat \<Rightarrow> error + Heap_Id \<times> nat" where
  "raise_body h pos =
     bindE (get_pos_father h pos) (\<lambda>f.
     bindE (swap h pos f) (\<lambda>h'.
     bindE (get_pos_father h' pos) (\<lambda>f'. Inr (h', f'))))"

function raise_loop :: "(ptr \<rightharpoonup> 'e::linorder) \<Rightarrow> Heap_Id \<Rightarrow> nat \<Rightarrow> error + Heap_Id" where
  "raise_loop mem h pos =
     (case raise_cond mem h pos of
        Inl e \<Rightarrow> Inl e
      | Inr continue \<Rightarrow>
          if continue then
            (case raise_body h pos of
               Inl e \<Rightarrow> Inl e
             | Inr (h', pos') \<Rightarrow> raise_loop mem h' pos')
          else Inr h)"
  by pat_completeness auto
termination
proof (relation "measure (\<lambda>(mem, h, pos). pos)")
  show "wf (measure (\<lambda>(mem :: ptr \<rightharpoonup> 'e::linorder, h :: Heap_Id, pos :: nat). pos))"
    by simp
next
  fix mem :: "ptr \<rightharpoonup> 'e::linorder" and h :: Heap_Id and pos :: nat
    and continue :: bool and x :: "Heap_Id \<times> nat" and h' :: Heap_Id and pos' :: nat
  assume c: "raise_cond mem h pos = Inr continue" "continue"
    and b: "raise_body h pos = Inr x" "(h', pos') = x"
  from c have pos: "0 < pos"
    by (auto simp: raise_cond_def split: if_splits)
  from b have "pos' = usub pos 1 div 2"
    by (auto simp: raise_body_def bindE_def split: sum.splits)
      (auto simp: get_pos_father_def bindE_def assert_that_def split: if_splits)
  moreover have "usub pos 1 < pos"
  proof (cases "pos < UINT_RANGE")
    case True
    from pos have "pos + UINT_RANGE - 1 = (pos - 1) + UINT_RANGE"
      by simp
    then have "usub pos 1 = (pos - 1) mod UINT_RANGE"
      by (simp only: usub_def mod_add_self2)
    with True pos show ?thesis by simp
  next
    case False
    have "usub pos 1 < UINT_RANGE"
      by (simp add: usub_def UINT_RANGE_def)
    with False show ?thesis by simp
  qed
  ultimately have "pos' < pos"
    by (metis div_le_dividend le_less_trans)
  then show "((mem, h', pos'), (mem, h, pos)) \<in> measure (\<lambda>(mem, h, pos). pos)"
    by simp
qed

definition raise :: "(ptr \<rightharpoonup> 'e::linorder) \<Rightarrow> Heap_Id \<Rightarrow> nat \<Rightarrow> error + Heap_Id" where
  "raise mem h pos = bindE (assert_that (pos \<le> nb_elem h)) (\<lambda>_. raise_loop mem h pos)"

subsection \<open>lower\<close>

text \<open>
  The loop of \<open>lower\<close>, split into its condition, its body and the statement after it.
  \<^verbatim>\<open>
  while(get_pos_right_son(pos)<nb_elem && get_pos_left_son(pos)<nb_elem
        && (*(elements[pos]) > *(elements[get_pos_left_son(pos)])
            || *(elements[pos]) >*(elements[get_pos_right_son(pos)]))){
    if( le(get_pos_left_son(pos),get_pos_right_son(pos))){
      swap(pos,get_pos_left_son(pos));
      pos=get_pos_left_son(pos);
    }
    else{
      swap(pos,get_pos_right_son(pos));
      pos=get_pos_right_son(pos);
    }
  }
  if( get_pos_left_son(pos)==nb_elem-1 && lt(get_pos_left_son(pos),pos)){
    swap(pos,get_pos_left_son(pos));
  }
  \<close>
\<close>

definition lower_cond :: "(ptr \<rightharpoonup> 'e::linorder) \<Rightarrow> Heap_Id \<Rightarrow> nat \<Rightarrow> error + bool" where
  "lower_cond mem h pos =
     bindE (get_pos_right_son h pos) (\<lambda>r.
     if \<not> r < nb_elem h then Inr False
     else
       bindE (get_pos_left_son h pos) (\<lambda>l.
       if \<not> l < nb_elem h then Inr False
       else
         bindE (value_at mem h pos) (\<lambda>a.
         bindE (get_pos_left_son h pos) (\<lambda>l'.
         bindE (value_at mem h l') (\<lambda>b.
         if b < a then Inr True
         else
           bindE (value_at mem h pos) (\<lambda>a'.
           bindE (get_pos_right_son h pos) (\<lambda>r'.
           bindE (value_at mem h r') (\<lambda>c. Inr (c < a')))))))))"

definition lower_body :: "(ptr \<rightharpoonup> 'e::linorder) \<Rightarrow> Heap_Id \<Rightarrow> nat \<Rightarrow> error + Heap_Id \<times> nat" where
  "lower_body mem h pos =
     bindE (get_pos_left_son h pos) (\<lambda>l.
     bindE (get_pos_right_son h pos) (\<lambda>r.
     bindE (le mem h l r) (\<lambda>left_first.
     if left_first then
       bindE (get_pos_left_son h pos) (\<lambda>l1.
       bindE (swap h pos l1) (\<lambda>h'.
       bindE (get_pos_left_son h' pos) (\<lambda>l2. Inr (h', l2))))
     else
       bindE (get_pos_right_son h pos) (\<lambda>r1.
       bindE (swap h pos r1) (\<lambda>h'.
       bindE (get_pos_right_son h' pos) (\<lambda>r2. Inr (h', r2)))))))"

definition lower_exit :: "(ptr \<rightharpoonup> 'e::linorder) \<Rightarrow> Heap_Id \<Rightarrow> nat \<Rightarrow> error + Heap_Id" where
  "lower_exit mem h pos =
     bindE (get_pos_left_son h pos) (\<lambda>l.
     if l = usub (nb_elem h) 1 then
       bindE (get_pos_left_son h pos) (\<lambda>l1.
       bindE (lt mem h l1 pos) (\<lambda>smaller.
       if smaller then
         bindE (get_pos_left_son h pos) (\<lambda>l2. swap h pos l2)
       else Inr h))
     else Inr h)"

partial_function (option) lower ::
  "(ptr \<rightharpoonup> 'e::linorder) \<Rightarrow> Heap_Id \<Rightarrow> nat \<Rightarrow> (error + Heap_Id) option" where
  "lower mem h pos =
     (case lower_cond mem h pos of
        Inl e \<Rightarrow> Some (Inl e)
      | Inr continue \<Rightarrow>
          if continue then
            (case lower_body mem h pos of
               Inl e \<Rightarrow> Some (Inl e)
             | Inr (h', pos') \<Rightarrow> lower mem h' pos')
          else Some (lower_exit mem h pos))"

declare lower.simps [code]

subsection \<open>Public methods\<close>

text \<open>
  The constructor. \<open>new Node [_capacity]\<close> value-initialises every pair to
  \<open>(nullptr, 0)\<close>; the two arrays of \<open>unsigned int\<close> are left as allocated.
  The argument is an \<open>unsigned int\<close>, a number below \<open>UINT_RANGE\<close>; a failure
  of the allocation itself is not modelled. The destructor has an empty body, and the
  output operator only prints the live slots: neither is part of the embedding.
\<close>

definition Heap_Id_ctor :: "nat \<Rightarrow> error + Heap_Id" where
  "Heap_Id_ctor capacity' =
     (let h = \<lparr>capacity = capacity',
               elements = replicate capacity' (nullptr, 0),
               nb_elem = 0,
               id_to_pos = replicate capacity' None,
               id_free = replicate capacity' None\<rparr>
      in bindE (is_valid h) (\<lambda>ok.
         bindE (assert_that ok) (\<lambda>_. Inr h)))"

definition set_first :: "Heap_Id \<Rightarrow> nat \<Rightarrow> ptr \<Rightarrow> error + Heap_Id" where
  \<comment> \<open>\<open>elements[i].first = p\<close>\<close>
  "set_first h i p = bindE (elem_read h i) (\<lambda>n. elem_write h i (p, snd n))"

definition set_second :: "Heap_Id \<Rightarrow> nat \<Rightarrow> nat \<Rightarrow> error + Heap_Id" where
  \<comment> \<open>\<open>elements[i].second = k\<close>\<close>
  "set_second h i k = bindE (elem_read h i) (\<lambda>n. elem_write h i (fst n, k))"

text \<open>
  \<open>push\<close> is declared to return \<open>unsigned int\<close> and has no \<open>return\<close> statement: the
  caller receives no defined value, and the result of the embedding is the new state
  alone. The argument \<open>v\<close> is the address of the element passed by reference.
\<close>

definition push :: "(ptr \<rightharpoonup> 'e::linorder) \<Rightarrow> Heap_Id \<Rightarrow> ptr \<Rightarrow> error + Heap_Id" where
  "push mem h v =
     (if is_empty h then
        bindE (set_first h (nb_elem h) v) (\<lambda>h1.
        bindE (set_second h1 (nb_elem h1) (nb_elem h1)) (\<lambda>h2.
        Inr (h2\<lparr>nb_elem := uincr (nb_elem h2)\<rparr>)))
      else
        bindE (set_first h (nb_elem h) v) (\<lambda>h1.
        bindE (set_second h1 (nb_elem h1) (nb_elem h1)) (\<lambda>h2.
        bindE (raise mem h2 (nb_elem h2)) (\<lambda>h3.
        Inr (h3\<lparr>nb_elem := uincr (nb_elem h3)\<rparr>)))))"

text \<open>
  \<open>pop\<close> returns a reference to the element of the node that was at the root (the
  source writes \<open>*min\<close> for \<open>*(min.first)\<close>): the embedding returns the new state
  and that address.
  \<^verbatim>\<open>
  Node min=elements[0];
  elements[0]=elements[nb_elem-1];
  nb_elem--;
  if(nb_elem>2) lower(0);
  return *min;
  \<close>
\<close>

definition pop_front :: "Heap_Id \<Rightarrow> error + Node \<times> Heap_Id" where
  "pop_front h =
     bindE (elem_read h 0) (\<lambda>min'.
     bindE (elem_read h (usub (nb_elem h) 1)) (\<lambda>last.
     bindE (elem_write h 0 last) (\<lambda>h1.
     Inr (min', h1\<lparr>nb_elem := usub (nb_elem h1) 1\<rparr>))))"

definition pop_return :: "(ptr \<rightharpoonup> 'e) \<Rightarrow> Heap_Id \<Rightarrow> Node \<Rightarrow> error + Heap_Id \<times> ptr" where
  "pop_return mem h min' = bindE (deref mem (fst min')) (\<lambda>_. Inr (h, fst min'))"

definition pop :: "(ptr \<rightharpoonup> 'e::linorder) \<Rightarrow> Heap_Id \<Rightarrow> (error + Heap_Id \<times> ptr) option" where
  "pop mem h =
     (case pop_front h of
        Inl e \<Rightarrow> Some (Inl e)
      | Inr (min', h2) \<Rightarrow>
          if 2 < nb_elem h2 then
            (case lower mem h2 0 of
               None \<Rightarrow> None
             | Some (Inl e) \<Rightarrow> Some (Inl e)
             | Some (Inr h3) \<Rightarrow> Some (pop_return mem h3 min'))
          else Some (pop_return mem h2 min'))"

text \<open>\<open>reposition\<close> has an empty body.\<close>

definition reposition :: "Heap_Id \<Rightarrow> nat \<Rightarrow> error + Heap_Id" where
  "reposition h id' = Inr h"


subsection \<open>Call sequences\<close>

text \<open>
  A client calls the public methods one after the other on the same heap; a call that
  aborts, or that never returns, ends the run.
\<close>

datatype call = Push ptr | Pop | Reposition nat

fun call_heap :: "(ptr \<rightharpoonup> 'e::linorder) \<Rightarrow> Heap_Id \<Rightarrow> call \<Rightarrow> (error + Heap_Id) option" where
  "call_heap mem h (Push v) = Some (push mem h v)"
| "call_heap mem h Pop =
     (case pop mem h of
        None \<Rightarrow> None
      | Some (Inl e) \<Rightarrow> Some (Inl e)
      | Some (Inr (h', r)) \<Rightarrow> Some (Inr h'))"
| "call_heap mem h (Reposition k) = Some (reposition h k)"

fun calls :: "(ptr \<rightharpoonup> 'e::linorder) \<Rightarrow> Heap_Id \<Rightarrow> call list \<Rightarrow> (error + Heap_Id) option" where
  "calls mem h [] = Some (Inr h)"
| "calls mem h (c # cs) =
     (case call_heap mem h c of
        None \<Rightarrow> None
      | Some (Inl e) \<Rightarrow> Some (Inl e)
      | Some (Inr h') \<Rightarrow> calls mem h' cs)"

fun push_all :: "(ptr \<rightharpoonup> 'e::linorder) \<Rightarrow> Heap_Id \<Rightarrow> ptr list \<Rightarrow> error + Heap_Id" where
  "push_all mem h [] = Inr h"
| "push_all mem h (v # vs) = bindE (push mem h v) (\<lambda>h'. push_all mem h' vs)"

subsection \<open>Properties of a heap state\<close>

text \<open>
  \<open>live_ok\<close>: the live slots lie inside the array and each one points to an object of
  the caller. \<open>val\<close> reads the value of the element of a live slot.
\<close>

definition live_ok :: "(ptr \<rightharpoonup> 'e) \<Rightarrow> Heap_Id \<Rightarrow> bool" where
  "live_ok mem h =
     (nb_elem h \<le> length (elements h) \<and> length (elements h) < UINT_RANGE \<and>
      (\<forall>i \<in> {0 ..< nb_elem h}. mem (fst (elements h ! i)) \<noteq> None))"

definition val :: "(ptr \<rightharpoonup> 'e) \<Rightarrow> Heap_Id \<Rightarrow> nat \<Rightarrow> 'e" where
  "val mem h i = the (mem (fst (elements h ! i)))"

text \<open>
  Heap order: every live index \<open>i > 0\<close> holds a value that is at least the value at
  \<open>(i - 1) div 2\<close>; both values must be readable.
\<close>

definition heap_order :: "(ptr \<rightharpoonup> 'e::linorder) \<Rightarrow> Heap_Id \<Rightarrow> bool" where
  "heap_order mem h =
     (\<forall>i \<in> {1 ..< nb_elem h}.
        case (value_at mem h ((i - 1) div 2), value_at mem h i) of
          (Inr a, Inr b) \<Rightarrow> a \<le> b
        | _ \<Rightarrow> False)"

text \<open>
  \<open>same_frame h h'\<close>: the two states have the same capacity, array length, number of
  elements and the same \<open>id_to_pos\<close> and \<open>id_free\<close> arrays.
\<close>

definition same_frame :: "Heap_Id \<Rightarrow> Heap_Id \<Rightarrow> bool" where
  "same_frame h h' =
     (capacity h' = capacity h \<and> length (elements h') = length (elements h) \<and>
      nb_elem h' = nb_elem h \<and> id_free h' = id_free h \<and> id_to_pos h' = id_to_pos h)"

text \<open>The state after the nodes of two slots have been exchanged.\<close>

definition exchange :: "Heap_Id \<Rightarrow> nat \<Rightarrow> nat \<Rightarrow> Heap_Id" where
  "exchange h a b = h\<lparr>elements := (elements h)[b := elements h ! a, a := elements h ! b]\<rparr>"

subsection \<open>Example stores\<close>

text \<open>
  Three objects of the caller, at the addresses 10, 20 and 30, holding 5, 3 and 8.
\<close>

definition store_5_3_8 :: "ptr \<rightharpoonup> int" where
  "store_5_3_8 = [10 \<mapsto> 5, 20 \<mapsto> 3, 30 \<mapsto> 8]"

text \<open>
  Two objects, at the addresses 10 and 20, holding 5 and 10.
\<close>

definition store_5_10 :: "ptr \<rightharpoonup> int" where
  "store_5_10 = [10 \<mapsto> 5, 20 \<mapsto> 10]"

section \<open>Verification\<close>

subsection \<open>Basic facts\<close>

declare raise_loop.simps [simp del]

lemma bindE_Inl [simp]: "bindE (Inl e) f = Inl e"
  by (simp add: bindE_def)

lemma bindE_Inr [simp]: "bindE (Inr x) f = f x"
  by (simp add: bindE_def)

lemma bindE_eq_Inr: "bindE m f = Inr y \<longleftrightarrow> (\<exists>x. m = Inr x \<and> f x = Inr y)"
  by (cases m) simp_all

lemma assert_that_simps [simp]:
  "assert_that True = Inr ()" "assert_that False = Inl AssertionFailed"
  by (simp_all add: assert_that_def)

lemma assert_that_eq_Inr [simp]: "assert_that b = Inr u \<longleftrightarrow> b"
  by (simp add: assert_that_def)

lemma UINT_RANGE_pos [simp]: "0 < UINT_RANGE"
  by (simp add: UINT_RANGE_def)

lemma usub_le: "b \<le> a \<Longrightarrow> a < UINT_RANGE \<Longrightarrow> usub a b = a - b"
proof -
  assume "b \<le> a" "a < UINT_RANGE"
  then have "a + UINT_RANGE - b = (a - b) + UINT_RANGE" "a - b < UINT_RANGE"
    by simp_all
  then show ?thesis
    by (simp only: usub_def mod_add_self2 mod_less)
qed

subsection \<open>Facts about swap\<close>

lemma exchange_simps [simp]:
  "nb_elem (exchange h a b) = nb_elem h"
  "capacity (exchange h a b) = capacity h"
  "id_to_pos (exchange h a b) = id_to_pos h"
  "id_free (exchange h a b) = id_free h"
  "length (elements (exchange h a b)) = length (elements h)"
  by (simp_all add: exchange_def)

lemma swap_eq_Inr:
  "swap h a b = Inr h' \<longleftrightarrow>
     a \<le> nb_elem h \<and> b \<le> nb_elem h \<and> a < length (elements h) \<and> b < length (elements h) \<and>
     h' = exchange h a b"
  by (auto simp: swap_def elem_read_def elem_write_def exchange_def assert_that_def
      split: if_splits)

lemma swap_live:
  "a < nb_elem h \<Longrightarrow> b < nb_elem h \<Longrightarrow> nb_elem h \<le> length (elements h) \<Longrightarrow>
   swap h a b = Inr (exchange h a b)"
  by (simp add: swap_eq_Inr)

lemma nth_exchange:
  "a < length (elements h) \<Longrightarrow> b < length (elements h) \<Longrightarrow>
   elements (exchange h a b) ! i =
     (if i = a then elements h ! b else if i = b then elements h ! a else elements h ! i)"
  by (auto simp: exchange_def nth_list_update)

lemma live_ok_exchange:
  assumes "live_ok mem h" "a < nb_elem h" "b < nb_elem h"
  shows "live_ok mem (exchange h a b)"
  using assms by (auto simp: live_ok_def nth_exchange)

lemma value_at_live:
  "live_ok mem h \<Longrightarrow> i < nb_elem h \<Longrightarrow> value_at mem h i = Inr (val mem h i)"
  by (force simp: live_ok_def value_at_def elem_read_def deref_def val_def split: option.splits)


subsection \<open>One step of lower\<close>

lemma sons_live:
  assumes "pos < nb_elem h" "2 * pos + 2 < UINT_RANGE"
  shows "get_pos_left_son h pos = Inr (2 * pos + 1)"
    and "get_pos_right_son h pos = Inr (2 * pos + 2)"
  using assms by (simp_all add: get_pos_left_son_def get_pos_right_son_def)

lemma lower_cond_live:
  assumes "live_ok mem h" "pos < nb_elem h" "2 * pos + 2 < UINT_RANGE"
  shows "lower_cond mem h pos =
    Inr (2 * pos + 2 < nb_elem h \<and>
         (val mem h (2 * pos + 1) < val mem h pos \<or> val mem h (2 * pos + 2) < val mem h pos))"
  using assms by (simp add: lower_cond_def sons_live value_at_live)

lemma le_live:
  assumes "live_ok mem h" "a < nb_elem h" "b < nb_elem h"
  shows "le mem h a b = Inr (val mem h a \<le> val mem h b)"
    and "lt mem h a b = Inr (val mem h a < val mem h b)"
  using assms by (simp_all add: le_def lt_def value_at_live)

lemma lower_body_live:
  assumes "live_ok mem h" "2 * pos + 2 < nb_elem h" "2 * pos + 2 < UINT_RANGE"
  shows "lower_body mem h pos =
    Inr (if val mem h (2 * pos + 1) \<le> val mem h (2 * pos + 2)
         then (exchange h pos (2 * pos + 1), 2 * pos + 1)
         else (exchange h pos (2 * pos + 2), 2 * pos + 2))"
proof -
  from assms have "pos < nb_elem h" "2 * pos + 1 < nb_elem h" "nb_elem h \<le> length (elements h)"
    by (simp_all add: live_ok_def)
  with assms show ?thesis
    by (simp add: lower_body_def sons_live le_live swap_live)
qed

lemma lower_exit_live:
  assumes "live_ok mem h" "pos < nb_elem h" "2 * pos + 2 < UINT_RANGE"
  shows "lower_exit mem h pos =
    Inr (if 2 * pos + 2 = nb_elem h \<and> val mem h (2 * pos + 1) < val mem h pos
         then exchange h pos (2 * pos + 1) else h)"
proof -
  from assms have n: "1 \<le> nb_elem h" "nb_elem h < UINT_RANGE" "nb_elem h \<le> length (elements h)"
    by (simp_all add: live_ok_def)
  then have u: "usub (nb_elem h) 1 = nb_elem h - 1"
    by (simp add: usub_le)
  show ?thesis
  proof (cases "2 * pos + 2 = nb_elem h")
    case True
    then have "2 * pos + 1 = nb_elem h - 1" "2 * pos + 1 < nb_elem h"
      by simp_all
    with assms u n show ?thesis
      by (simp add: lower_exit_def sons_live le_live swap_live)
  next
    case False
    with n have "2 * pos + 1 \<noteq> nb_elem h - 1"
      by arith
    with assms u False show ?thesis
      by (simp add: lower_exit_def sons_live)
  qed
qed

lemma lower_continue:
  assumes "live_ok mem h" "2 * pos + 2 < nb_elem h" "2 * pos + 2 < UINT_RANGE"
    and "val mem h (2 * pos + 1) < val mem h pos \<or> val mem h (2 * pos + 2) < val mem h pos"
  shows "lower mem h pos =
    lower mem
      (exchange h pos
         (if val mem h (2 * pos + 1) \<le> val mem h (2 * pos + 2) then 2 * pos + 1 else 2 * pos + 2))
      (if val mem h (2 * pos + 1) \<le> val mem h (2 * pos + 2) then 2 * pos + 1 else 2 * pos + 2)"
proof -
  from assms have "pos < nb_elem h"
    by simp
  with assms have "lower_cond mem h pos = Inr True"
    by (simp add: lower_cond_live)
  then show ?thesis
    using assms by (subst lower.simps) (simp add: lower_body_live)
qed

lemma lower_stop:
  assumes "live_ok mem h" "pos < nb_elem h" "2 * pos + 2 < UINT_RANGE"
    and "\<not> (2 * pos + 2 < nb_elem h \<and>
            (val mem h (2 * pos + 1) < val mem h pos \<or> val mem h (2 * pos + 2) < val mem h pos))"
  shows "lower mem h pos =
    Some (Inr (if 2 * pos + 2 = nb_elem h \<and> val mem h (2 * pos + 1) < val mem h pos
               then exchange h pos (2 * pos + 1) else h))"
proof -
  from assms have "lower_cond mem h pos = Inr False"
    by (simp add: lower_cond_live)
  then show ?thesis
    using assms by (subst lower.simps) (simp add: lower_exit_live)
qed

text \<open>
  The two lemmas together: one step of \<open>lower\<close> at a live position \<open>pos\<close> of a
  well-formed heap, with sons \<open>2 * pos + 1\<close> and \<open>2 * pos + 2\<close>. When both sons are live
  and one of them is smaller than the node, the node is exchanged with the left son if
  left \<open>\<le>\<close> right and with the right son otherwise, and the lowering goes on from that
  son. When both are live and none is smaller, the heap is returned as it is. A node whose
  only son is the left one is compared with it and exchanged if the son is smaller. A node
  without sons is left alone.
\<close>

lemma lower_step_policy:
  assumes "live_ok mem h" "pos < nb_elem h" "2 * pos + 2 < UINT_RANGE"
  shows
    "(2 * pos + 2 < nb_elem h \<and>
        (val mem h (2 * pos + 1) < val mem h pos \<or> val mem h (2 * pos + 2) < val mem h pos) \<longrightarrow>
      lower mem h pos =
        (if val mem h (2 * pos + 1) \<le> val mem h (2 * pos + 2)
         then lower mem (exchange h pos (2 * pos + 1)) (2 * pos + 1)
         else lower mem (exchange h pos (2 * pos + 2)) (2 * pos + 2))) \<and>
     (2 * pos + 2 < nb_elem h \<and>
        \<not> (val mem h (2 * pos + 1) < val mem h pos \<or> val mem h (2 * pos + 2) < val mem h pos) \<longrightarrow>
      lower mem h pos = Some (Inr h)) \<and>
     (2 * pos + 2 = nb_elem h \<longrightarrow>
      lower mem h pos =
        Some (Inr (if val mem h (2 * pos + 1) < val mem h pos
                   then exchange h pos (2 * pos + 1) else h))) \<and>
     (nb_elem h < 2 * pos + 2 \<longrightarrow> lower mem h pos = Some (Inr h))"
proof (intro conjI impI)
  assume "2 * pos + 2 < nb_elem h \<and>
    (val mem h (2 * pos + 1) < val mem h pos \<or> val mem h (2 * pos + 2) < val mem h pos)"
  then show "lower mem h pos =
        (if val mem h (2 * pos + 1) \<le> val mem h (2 * pos + 2)
         then lower mem (exchange h pos (2 * pos + 1)) (2 * pos + 1)
         else lower mem (exchange h pos (2 * pos + 2)) (2 * pos + 2))"
    using lower_continue [OF assms(1) _ assms(3)] by (simp split: if_splits)
next
  assume "2 * pos + 2 < nb_elem h \<and>
    \<not> (val mem h (2 * pos + 1) < val mem h pos \<or> val mem h (2 * pos + 2) < val mem h pos)"
  then show "lower mem h pos = Some (Inr h)"
    using lower_stop [OF assms] by simp
next
  assume "2 * pos + 2 = nb_elem h"
  then show "lower mem h pos =
        Some (Inr (if val mem h (2 * pos + 1) < val mem h pos
                   then exchange h pos (2 * pos + 1) else h))"
    using lower_stop [OF assms] by simp
next
  assume "nb_elem h < 2 * pos + 2"
  then show "lower mem h pos = Some (Inr h)"
    using lower_stop [OF assms] by simp
qed

subsection \<open>lower returns on a well-formed heap\<close>

lemma lower_returns:
  assumes "live_ok mem h" "pos < nb_elem h" "2 * nb_elem h < UINT_RANGE"
  shows "\<exists>h'. lower mem h pos = Some (Inr h') \<and> live_ok mem h' \<and> nb_elem h' = nb_elem h \<and>
           length (elements h') = length (elements h) \<and> capacity h' = capacity h"
  using assms
proof (induction "nb_elem h - pos" arbitrary: h pos rule: less_induct)
  case less
  from less.prems have r: "2 * pos + 2 < UINT_RANGE"
    by simp
  show ?case
  proof (cases "2 * pos + 2 < nb_elem h \<and>
        (val mem h (2 * pos + 1) < val mem h pos \<or> val mem h (2 * pos + 2) < val mem h pos)")
    case True
    define c where "c = (if val mem h (2 * pos + 1) \<le> val mem h (2 * pos + 2)
                         then 2 * pos + 1 else 2 * pos + 2)"
    from True have c: "pos < c" "c < nb_elem h"
      by (simp_all add: c_def)
    from True have eq: "lower mem h pos = lower mem (exchange h pos c) c"
      unfolding c_def using lower_continue [OF less.prems(1) _ r] by blast
    have "live_ok mem (exchange h pos c)"
      using less.prems c by (simp add: live_ok_exchange)
    moreover have "nb_elem (exchange h pos c) - c < nb_elem h - pos"
      using c by simp
    ultimately obtain h' where
      "lower mem (exchange h pos c) c = Some (Inr h')" "live_ok mem h'"
      "nb_elem h' = nb_elem (exchange h pos c)"
      "length (elements h') = length (elements (exchange h pos c))"
      "capacity h' = capacity (exchange h pos c)"
      using less.hyps [of "exchange h pos c" c] c less.prems(3) by auto
    with eq show ?thesis by simp
  next
    case False
    then have "lower mem h pos =
      Some (Inr (if 2 * pos + 2 = nb_elem h \<and> val mem h (2 * pos + 1) < val mem h pos
                 then exchange h pos (2 * pos + 1) else h))"
      using lower_stop [OF less.prems(1,2) r] by blast
    moreover have "2 * pos + 2 = nb_elem h \<Longrightarrow> live_ok mem (exchange h pos (2 * pos + 1))"
      using less.prems by (simp add: live_ok_exchange)
    ultimately show ?thesis
      using less.prems(1) by auto
  qed
qed

lemma pop_front_live:
  assumes "live_ok mem h" "0 < nb_elem h"
  shows "pop_front h =
     Inr (elements h ! 0,
          h\<lparr>elements := (elements h)[0 := elements h ! (nb_elem h - 1)],
            nb_elem := nb_elem h - 1\<rparr>)"
proof -
  from assms have n: "nb_elem h \<le> length (elements h)" "nb_elem h < UINT_RANGE"
    by (simp_all add: live_ok_def)
  with assms have "usub (nb_elem h) 1 = nb_elem h - 1"
    by (simp add: usub_le)
  moreover from n assms(2) have "nb_elem h - 1 < length (elements h)" "0 < length (elements h)"
    by linarith+
  ultimately show ?thesis
    by (simp add: pop_front_def elem_read_def elem_write_def)
qed

lemma live_ok_pop_front:
  assumes "live_ok mem h" "0 < nb_elem h"
  shows "live_ok mem (h\<lparr>elements := (elements h)[0 := elements h ! (nb_elem h - 1)],
            nb_elem := nb_elem h - 1\<rparr>)"
proof -
  from assms have n: "nb_elem h \<le> length (elements h)" "length (elements h) < UINT_RANGE"
    and v: "\<And>i. i < nb_elem h \<Longrightarrow> mem (fst (elements h ! i)) \<noteq> None"
    by (simp_all add: live_ok_def)
  have "mem (fst ((elements h)[0 := elements h ! (nb_elem h - 1)] ! i)) \<noteq> None"
    if "i < nb_elem h - 1" for i
  proof (cases "i = 0")
    case True
    from that n have "0 < length (elements h)" "nb_elem h - 1 < nb_elem h"
      by linarith+
    with True v [of "nb_elem h - 1"] show ?thesis by simp
  next
    case False
    with that v [of i] show ?thesis by simp
  qed
  with n show ?thesis
    by (simp add: live_ok_def)
qed

lemma pop_empty:
  assumes "live_ok mem h" "nb_elem h = 0"
  shows "pop mem h = Some (Inl OutOfBounds)"
proof -
  have "usub 0 1 = UINT_RANGE - 1"
    by (simp add: usub_def)
  with assms have "elem_read h (usub (nb_elem h) 1) = Inl OutOfBounds"
    by (simp add: elem_read_def live_ok_def)
  then have "pop_front h = Inl OutOfBounds"
    by (cases "0 < length (elements h)") (simp_all add: pop_front_def elem_read_def)
  then show ?thesis
    by (simp add: pop_def)
qed

lemma pop_nonempty:
  assumes "live_ok mem h" "0 < nb_elem h" "2 * nb_elem h < UINT_RANGE"
  shows "\<exists>h'. pop mem h = Some (Inr (h', fst (elements h ! 0))) \<and>
              nb_elem h' = nb_elem h - 1 \<and> live_ok mem h'"
proof -
  let ?h2 = "h\<lparr>elements := (elements h)[0 := elements h ! (nb_elem h - 1)],
            nb_elem := nb_elem h - 1\<rparr>"
  note front = pop_front_live [OF assms(1,2)]
  have l2: "live_ok mem ?h2"
    by (rule live_ok_pop_front [OF assms(1,2)])
  from assms have "mem (fst (elements h ! 0)) \<noteq> None"
    by (simp add: live_ok_def)
  then have ret: "pop_return mem h' (elements h ! 0) = Inr (h', fst (elements h ! 0))" for h'
    by (auto simp: pop_return_def deref_def)
  show ?thesis
  proof (cases "2 < nb_elem ?h2")
    case True
    then have "0 < nb_elem ?h2" "2 * nb_elem ?h2 < UINT_RANGE"
      using assms(3) by simp_all
    from lower_returns [OF l2 this] obtain h3 where
      "lower mem ?h2 0 = Some (Inr h3)" "live_ok mem h3" "nb_elem h3 = nb_elem ?h2"
      by blast
    with True front ret show ?thesis
      by (simp add: pop_def)
  next
    case False
    with front ret l2 show ?thesis
      by (simp add: pop_def)
  qed
qed

subsection \<open>What push and pop return\<close>

lemma raise_body_Inr:
  "raise_body h pos = Inr (h', pos') \<Longrightarrow>
     pos < length (elements h) \<and> pos' < length (elements h) \<and> h' = exchange h pos pos' \<and>
     pos' = usub pos 1 div 2"
  by (auto simp: raise_body_def get_pos_father_def bindE_eq_Inr swap_eq_Inr)

lemma raise_loop_preserves:
  "raise_loop mem h pos = Inr h' \<Longrightarrow>
     capacity h' = capacity h \<and> length (elements h') = length (elements h) \<and>
     nb_elem h' = nb_elem h \<and> id_free h' = id_free h \<and> id_to_pos h' = id_to_pos h \<and>
     (\<exists>i\<le>pos. elements h' ! i = elements h ! pos)"
proof (induction mem h pos rule: raise_loop.induct)
  case (1 mem h pos)
  show ?case
  proof (cases "raise_cond mem h pos")
    case (Inl e)
    with "1.prems" show ?thesis
      by (simp add: raise_loop.simps [of mem h pos])
  next
    case (Inr continue)
    show ?thesis
    proof (cases continue)
      case False
      with Inr "1.prems" show ?thesis
        by (auto simp: raise_loop.simps [of mem h pos])
    next
      case True
      with Inr "1.prems" obtain h1 pos1 where
        b: "raise_body h pos = Inr (h1, pos1)" and l: "raise_loop mem h1 pos1 = Inr h'"
        by (auto simp: raise_loop.simps [of mem h pos] split: sum.splits)
      from raise_body_Inr [OF b] have
        f: "pos < length (elements h)" "pos1 < length (elements h)" "h1 = exchange h pos pos1"
        "pos1 = usub pos 1 div 2"
        by simp_all
      from Inr True have "0 < pos"
        by (auto simp: raise_cond_def split: if_splits)
      have "pos1 \<le> pos"
      proof (cases "pos < UINT_RANGE")
        case True
        with \<open>0 < pos\<close> have "usub pos 1 = pos - 1"
          by (simp add: usub_le)
        with f(4) show ?thesis by simp
      next
        case False
        have "usub pos 1 < UINT_RANGE"
          by (simp add: usub_def)
        with False f(4) show ?thesis
          by (meson div_le_dividend le_less_trans less_imp_le not_less order_trans)
      qed
      from "1.IH" [OF Inr True b refl l] have
        ih: "capacity h' = capacity h1" "length (elements h') = length (elements h1)"
          "nb_elem h' = nb_elem h1" "id_free h' = id_free h1" "id_to_pos h' = id_to_pos h1"
          "\<exists>i\<le>pos1. elements h' ! i = elements h1 ! pos1"
        by simp_all
      from f have "elements h1 ! pos1 = elements h ! pos"
        by (simp add: nth_exchange)
      with ih(6) \<open>pos1 \<le> pos\<close> have "\<exists>i\<le>pos. elements h' ! i = elements h ! pos"
        by (metis order_trans)
      with ih f(3) show ?thesis
        by simp
    qed
  qed
qed

lemma push_unfold:
  "push mem h v =
     (if nb_elem h < length (elements h) then
        (if nb_elem h = 0 then
           Inr (h\<lparr>elements := (elements h)[nb_elem h := (v, nb_elem h)],
                  nb_elem := uincr (nb_elem h)\<rparr>)
         else
           bindE (raise mem (h\<lparr>elements := (elements h)[nb_elem h := (v, nb_elem h)]\<rparr>) (nb_elem h))
             (\<lambda>h3. Inr (h3\<lparr>nb_elem := uincr (nb_elem h3)\<rparr>)))
      else Inl OutOfBounds)"
  by (simp add: push_def set_first_def set_second_def elem_read_def elem_write_def is_empty_def)

lemma push_Inr:
  assumes "push mem h v = Inr h'"
  shows "capacity h' = capacity h \<and> length (elements h') = length (elements h) \<and>
     nb_elem h' = uincr (nb_elem h) \<and> id_free h' = id_free h \<and> id_to_pos h' = id_to_pos h \<and>
     nb_elem h < length (elements h) \<and>
     (\<exists>i\<le>nb_elem h. elements h' ! i = (v, nb_elem h))"
proof -
  let ?h2 = "h\<lparr>elements := (elements h)[nb_elem h := (v, nb_elem h)]\<rparr>"
  from assms have n: "nb_elem h < length (elements h)"
    by (simp add: push_unfold split: if_splits)
  show ?thesis
  proof (cases "nb_elem h = 0")
    case True
    with assms n show ?thesis
      by (auto simp: push_unfold)
  next
    case False
    with assms n obtain h3 where
      r: "raise_loop mem ?h2 (nb_elem h) = Inr h3" and h': "h' = h3\<lparr>nb_elem := uincr (nb_elem h3)\<rparr>"
      by (auto simp: push_unfold raise_def bindE_eq_Inr)
    from raise_loop_preserves [OF r] n h' show ?thesis
      by simp
  qed
qed

lemma push_third_Inl:
  assumes "2 \<le> nb_elem h" "nb_elem h < UINT_RANGE"
  shows "\<exists>e. push mem h v = Inl e"
    and "nb_elem h < length (elements h) \<Longrightarrow> mem v \<noteq> None \<Longrightarrow> push mem h v = Inl AssertionFailed"
proof -
  let ?h2 = "h\<lparr>elements := (elements h)[nb_elem h := (v, nb_elem h)]\<rparr>"
  from assms have "usub (nb_elem h) 2 = nb_elem h - 2"
    by (simp add: usub_le)
  moreover have "\<not> nb_elem h < nb_elem h - 2"
    by simp
  ultimately have f: "get_pos_father ?h2 (nb_elem h) = Inl AssertionFailed"
    by (simp add: get_pos_father_def)
  from assms have pos: "0 < nb_elem h"
    by simp
  have c: "raise_cond mem ?h2 (nb_elem h) =
      bindE (value_at mem ?h2 (nb_elem h)) (\<lambda>a. Inl AssertionFailed)"
    using pos by (simp add: raise_cond_def f)
  have r: "raise mem ?h2 (nb_elem h) =
      bindE (value_at mem ?h2 (nb_elem h)) (\<lambda>a. Inl AssertionFailed)"
    by (cases "value_at mem ?h2 (nb_elem h)")
      (simp_all add: raise_def raise_loop.simps [of mem ?h2 "nb_elem h"] c)
  show "\<exists>e. push mem h v = Inl e"
    using pos by (cases "value_at mem ?h2 (nb_elem h)") (simp_all add: push_unfold r)
  show "push mem h v = Inl AssertionFailed"
    if "nb_elem h < length (elements h)" "mem v \<noteq> None"
  proof -
    from that have "\<exists>a. value_at mem ?h2 (nb_elem h) = Inr a"
      by (auto simp: value_at_def elem_read_def deref_def)
    with that pos show ?thesis
      by (auto simp: push_unfold r)
  qed
qed

lemma value_at_nb_elem [simp]: "value_at mem (h\<lparr>nb_elem := n\<rparr>) i = value_at mem h i"
  by (simp add: value_at_def elem_read_def)

lemma push_second:
  assumes "nb_elem h = 1" "push mem h v = Inr h'"
  shows "nb_elem h' = 2" and "heap_order mem h'"
proof -
  let ?h2 = "h\<lparr>elements := (elements h)[Suc 0 := (v, Suc 0)]\<rparr>"
  from assms obtain h3 where
    n: "1 < length (elements h)" and r: "raise_loop mem ?h2 (Suc 0) = Inr h3"
    and h': "h' = h3\<lparr>nb_elem := uincr (nb_elem h3)\<rparr>"
    by (auto simp: push_unfold raise_def bindE_eq_Inr split: if_splits)
  from raise_loop_preserves [OF r] assms(1) have n3: "nb_elem h3 = 1"
    by simp
  with h' show "nb_elem h' = 2"
    by (simp add: uincr_def UINT_RANGE_def)
  have f: "get_pos_father g (Suc 0) = Inr 0" if "nb_elem g = Suc 0" for g
    using that by (simp add: get_pos_father_def usub_def UINT_RANGE_def)
  from r obtain continue where c: "raise_cond mem ?h2 (Suc 0) = Inr continue"
    by (cases "raise_cond mem ?h2 (Suc 0)") (simp_all add: raise_loop.simps [of mem ?h2 "Suc 0"])
  then obtain a b where
    a: "value_at mem ?h2 (Suc 0) = Inr a" and b: "value_at mem ?h2 0 = Inr b"
    and ab: "continue = (a < b)"
    using assms(1) by (auto simp: raise_cond_def f bindE_eq_Inr)
  have stop: "raise_loop mem g 0 = Inr g" for g
    by (simp add: raise_loop.simps [of mem g 0] raise_cond_def)
  from n have e0: "0 < length (elements h)"
    by linarith
  from a n have a': "deref mem v = Inr a"
    by (simp add: value_at_def elem_read_def)
  from b e0 have b': "deref mem (fst (elements h ! 0)) = Inr b"
    by (simp add: value_at_def elem_read_def)
  have "case (value_at mem h3 0, value_at mem h3 (Suc 0)) of
          (Inr x, Inr y) \<Rightarrow> x \<le> y | _ \<Rightarrow> False"
  proof (cases "a < b")
    case True
    have "swap ?h2 (Suc 0) 0 = Inr (exchange ?h2 (Suc 0) 0)"
      using n e0 assms(1) by (simp add: swap_eq_Inr)
    then have body: "raise_body ?h2 (Suc 0) = Inr (exchange ?h2 (Suc 0) 0, 0)"
      using assms(1) by (simp add: raise_body_def f)
    from r c ab True have h3: "h3 = exchange ?h2 (Suc 0) 0"
      by (simp add: raise_loop.simps [of mem ?h2 "Suc 0"] body stop)
    have "elements h3 ! 0 = (v, Suc 0)" "elements h3 ! Suc 0 = elements h ! 0"
      "length (elements h3) = length (elements h)"
      using n e0 by (simp_all add: h3 nth_exchange)
    with a' b' n e0 True show ?thesis
      by (simp add: value_at_def elem_read_def)
  next
    case False
    with r c ab have "h3 = ?h2"
      by (simp add: raise_loop.simps [of mem ?h2 "Suc 0"])
    with a b False show ?thesis
      by simp
  qed
  with h' n3 show "heap_order mem h'"
    by (simp add: heap_order_def uincr_def UINT_RANGE_def numeral_2_eq_2 atLeastLessThanSuc)
qed

lemma heap_order_small: "nb_elem h \<le> 1 \<Longrightarrow> heap_order mem h"
  by (simp add: heap_order_def)

lemma pop_front_Inr:
  assumes "pop_front h = Inr (m, h2)"
  shows "usub (nb_elem h) 1 < length (elements h) \<and> 0 < length (elements h) \<and>
     m = elements h ! 0 \<and>
     h2 = h\<lparr>elements := (elements h)[0 := elements h ! usub (nb_elem h) 1],
            nb_elem := usub (nb_elem h) 1\<rparr>"
  using assms
  by (auto simp: pop_front_def elem_read_def elem_write_def split: if_splits)

lemma lower_body_Inr:
  "lower_body mem h pos = Inr (h', pos') \<Longrightarrow> \<exists>c. h' = exchange h pos c"
  by (auto simp: lower_body_def bindE_eq_Inr swap_eq_Inr split: if_splits)

lemma lower_exit_Inr:
  "lower_exit mem h pos = Inr h' \<Longrightarrow> h' = h \<or> (\<exists>c. h' = exchange h pos c)"
  by (auto simp: lower_exit_def bindE_eq_Inr swap_eq_Inr split: if_splits)

lemma same_frame_refl [simp]: "same_frame h h"
  by (simp add: same_frame_def)

lemma same_frame_exchange [simp]: "same_frame h (exchange h a b)"
  by (simp add: same_frame_def)

lemma same_frame_trans: "same_frame h h1 \<Longrightarrow> same_frame h1 h2 \<Longrightarrow> same_frame h h2"
  by (simp add: same_frame_def)

lemma lower_same_frame:
  assumes "lower mem h pos = Some (Inr h')"
  shows "same_frame h h'"
proof -
  have "\<forall>h'. y = Inr h' \<longrightarrow> same_frame h h'" if "lower mem h pos = Some y" for y
  proof (rule lower.raw_induct
      [where P = "\<lambda>mem h pos y. \<forall>h'. y = Inr h' \<longrightarrow> same_frame h h'", OF _ that])
    fix lower' :: "(ptr \<rightharpoonup> 'a) \<Rightarrow> Heap_Id \<Rightarrow> nat \<Rightarrow> (error + Heap_Id) option"
      and mem h pos y
    assume IH: "\<And>mem h pos y. lower' mem h pos = Some y \<Longrightarrow>
        \<forall>h'. y = Inr h' \<longrightarrow> same_frame h h'"
      and prem: "(case lower_cond mem h pos of
          Inl e \<Rightarrow> Some (Inl e)
        | Inr continue \<Rightarrow>
            if continue then
              (case lower_body mem h pos of
                 Inl e \<Rightarrow> Some (Inl e)
               | Inr (h', pos') \<Rightarrow> lower' mem h' pos')
            else Some (lower_exit mem h pos)) = Some y"
    show "\<forall>h'. y = Inr h' \<longrightarrow> same_frame h h'"
    proof (cases "lower_cond mem h pos")
      case (Inl e)
      with prem show ?thesis by auto
    next
      case (Inr continue)
      show ?thesis
      proof (cases continue)
        case False
        with Inr prem have "y = lower_exit mem h pos"
          by simp
        then show ?thesis
          using lower_exit_Inr [of mem h pos] by auto
      next
        case True
        show ?thesis
        proof (cases "lower_body mem h pos")
          case (Inl e)
          with Inr True prem show ?thesis by auto
        next
          case b: (Inr x)
          obtain h1 pos1 where x: "x = (h1, pos1)"
            by (cases x)
          with b Inr True prem have "lower' mem h1 pos1 = Some y"
            by simp
          from IH [OF this] have "\<forall>h'. y = Inr h' \<longrightarrow> same_frame h1 h'" .
          moreover from lower_body_Inr [of mem h pos h1 pos1] b x have "same_frame h h1"
            by auto
          ultimately show ?thesis
            by (blast intro: same_frame_trans)
        qed
      qed
    qed
  qed
  with assms show ?thesis
    by blast
qed

lemma pop_Inr:
  assumes "pop mem h = Some (Inr (h', r))"
  shows "capacity h' = capacity h \<and> length (elements h') = length (elements h) \<and>
     nb_elem h' = usub (nb_elem h) 1 \<and> id_free h' = id_free h \<and> id_to_pos h' = id_to_pos h \<and>
     usub (nb_elem h) 1 < length (elements h) \<and> r = fst (elements h ! 0)"
proof -
  from assms obtain m h2 where f: "pop_front h = Inr (m, h2)"
    by (cases "pop_front h") (auto simp: pop_def)
  from pop_front_Inr [OF f] have
    b: "usub (nb_elem h) 1 < length (elements h)" and m: "m = elements h ! 0"
    and h2: "h2 = h\<lparr>elements := (elements h)[0 := elements h ! usub (nb_elem h) 1],
            nb_elem := usub (nb_elem h) 1\<rparr>"
    by simp_all
  have ret: "pop_return mem g m = Inr (h', r) \<Longrightarrow> h' = g \<and> r = fst m" for g
    by (auto simp: pop_return_def bindE_eq_Inr)
  have "same_frame h2 h' \<and> r = fst m"
  proof (cases "2 < nb_elem h2")
    case True
    with assms f obtain h3 where l: "lower mem h2 0 = Some (Inr h3)"
      and "pop_return mem h3 m = Inr (h', r)"
      by (auto simp: pop_def split: option.splits sum.splits)
    with ret [of h3] lower_same_frame [OF l] show ?thesis
      by simp
  next
    case False
    with assms f have "pop_return mem h2 m = Inr (h', r)"
      by (simp add: pop_def)
    with ret [of h2] show ?thesis
      by simp
  qed
  with b m show ?thesis
    by (simp add: same_frame_def h2)
qed

subsection \<open>Call sequences never hold more than two elements\<close>

lemma call_heap_invariant:
  assumes "call_heap mem h c = Some (Inr h')"
    and "nb_elem h \<le> 2" "length (elements h) < UINT_RANGE" "heap_order mem h"
  shows "nb_elem h' \<le> 2 \<and> length (elements h') < UINT_RANGE \<and> heap_order mem h'"
proof (cases c)
  case (Push v)
  with assms have p: "push mem h v = Inr h'"
    by simp
  note facts = push_Inr [OF p]
  consider "nb_elem h = 0" | "nb_elem h = 1" | "nb_elem h = 2"
    using assms(2) by linarith
  then show ?thesis
  proof cases
    case 1
    with facts have "nb_elem h' = 1"
      by (simp add: uincr_def UINT_RANGE_def)
    with facts assms(3) show ?thesis
      by (simp add: heap_order_small)
  next
    case 2
    from push_second [OF 2 p] facts assms(3) show ?thesis
      by simp
  next
    case 3
    then have "\<exists>e. push mem h v = Inl e"
      by (intro push_third_Inl(1)) (simp_all add: UINT_RANGE_def)
    with p show ?thesis by simp
  qed
next
  case Pop
  with assms obtain r where p: "pop mem h = Some (Inr (h', r))"
    by (auto split: option.splits sum.splits)
  note facts = pop_Inr [OF p]
  have "nb_elem h \<noteq> 0"
  proof
    assume "nb_elem h = 0"
    then have "usub (nb_elem h) 1 = UINT_RANGE - 1"
      by (simp add: usub_def)
    with facts assms(3) UINT_RANGE_pos show False
      by linarith
  qed
  with assms(2) have "usub (nb_elem h) 1 = nb_elem h - 1" "nb_elem h - 1 \<le> 1"
    by (simp_all add: usub_le UINT_RANGE_def)
  with facts assms(3) show ?thesis
    by (simp add: heap_order_small)
next
  case (Reposition k)
  with assms show ?thesis
    by (simp add: reposition_def)
qed

lemma calls_invariant:
  assumes "calls mem h cs = Some (Inr h')"
    and "nb_elem h \<le> 2" "length (elements h) < UINT_RANGE" "heap_order mem h"
  shows "nb_elem h' \<le> 2 \<and> length (elements h') < UINT_RANGE \<and> heap_order mem h'"
  using assms
proof (induction cs arbitrary: h)
  case Nil
  then show ?case by simp
next
  case (Cons c cs)
  from Cons.prems(1) obtain h1 where
    c: "call_heap mem h c = Some (Inr h1)" and cs: "calls mem h1 cs = Some (Inr h')"
    by (auto split: option.splits sum.splits)
  from call_heap_invariant [OF c Cons.prems(2-4)] Cons.IH [OF cs] show ?case
    by blast
qed

lemma ctor_Inr:
  "Heap_Id_ctor c =
     Inr \<lparr>capacity = c, elements = replicate c (nullptr, 0), nb_elem = 0,
          id_to_pos = replicate c None, id_free = replicate c None\<rparr>"
  by (simp add: Heap_Id_ctor_def is_valid_def is_empty_def)

subsection \<open>Worked runs\<close>

text \<open>
  The methods evaluated on small heaps, step by step. \<open>bindE\<close> is given a weak
  congruence rule so that the simplifier evaluates a call before it looks at what follows.
\<close>

lemma bindE_weak_cong: "m = m' \<Longrightarrow> bindE m f = bindE m' f"
  by simp

lemmas run_defs =
  push_unfold raise_def raise_cond_def raise_body_def raise_loop.simps
  get_pos_father_def swap_def elem_read_def elem_write_def value_at_def deref_def
  usub_def uincr_def UINT_RANGE_def

lemma ctor_1: "Heap_Id_ctor 1 =
    Inr \<lparr>capacity = 1, elements = [(0, 0)], nb_elem = 0,
      id_to_pos = [None], id_free = [None]\<rparr>"
  by (simp add: ctor_Inr nullptr_def)

lemma ctor_2: "Heap_Id_ctor 2 =
    Inr \<lparr>capacity = 2, elements = [(0, 0), (0, 0)], nb_elem = 0,
      id_to_pos = [None, None], id_free = [None, None]\<rparr>"
  by (simp add: ctor_Inr nullptr_def numeral_2_eq_2)

lemma ctor_3: "Heap_Id_ctor 3 =
    Inr \<lparr>capacity = 3, elements = [(0, 0), (0, 0), (0, 0)], nb_elem = 0,
      id_to_pos = [None, None, None], id_free = [None, None, None]\<rparr>"
  by (simp add: ctor_Inr nullptr_def numeral_3_eq_3)

lemma run_cap1_push_5: "push store_5_3_8
     \<lparr>capacity = 1, elements = [(0, 0)], nb_elem = 0,
      id_to_pos = [None], id_free = [None]\<rparr> 10 =
    Inr \<lparr>capacity = 1, elements = [(10, 0)], nb_elem = 1,
      id_to_pos = [None], id_free = [None]\<rparr>"
  by (simp add: run_defs store_5_3_8_def cong: bindE_weak_cong)

lemma run_cap1_pop: "pop store_5_3_8
     \<lparr>capacity = 1, elements = [(10, 0)], nb_elem = 1,
      id_to_pos = [None], id_free = [None]\<rparr> =
    Some (Inr (\<lparr>capacity = 1, elements = [(10, 0)], nb_elem = 0,
      id_to_pos = [None], id_free = [None]\<rparr>, 10))"
  by (simp add: run_defs pop_def pop_front_def pop_return_def store_5_3_8_def
      cong: bindE_weak_cong)

lemma run_cap1_push_3: "push store_5_3_8
     \<lparr>capacity = 1, elements = [(10, 0)], nb_elem = 0,
      id_to_pos = [None], id_free = [None]\<rparr> 20 =
    Inr \<lparr>capacity = 1, elements = [(20, 0)], nb_elem = 1,
      id_to_pos = [None], id_free = [None]\<rparr>"
  by (simp add: run_defs store_5_3_8_def cong: bindE_weak_cong)

lemma run_cap1_push_full: "push store_5_3_8
     \<lparr>capacity = 1, elements = [(10, 0)], nb_elem = 1,
      id_to_pos = [None], id_free = [None]\<rparr> 20 =
    Inl OutOfBounds"
  by (simp add: run_defs store_5_3_8_def cong: bindE_weak_cong)

lemma run_cap2_push_5: "push store_5_3_8
     \<lparr>capacity = 2, elements = [(0, 0), (0, 0)], nb_elem = 0,
      id_to_pos = [None, None], id_free = [None, None]\<rparr> 10 =
    Inr \<lparr>capacity = 2, elements = [(10, 0), (0, 0)], nb_elem = 1,
      id_to_pos = [None, None], id_free = [None, None]\<rparr>"
  by (simp add: run_defs store_5_3_8_def cong: bindE_weak_cong)

lemma run_cap2_push_3: "push store_5_3_8
     \<lparr>capacity = 2, elements = [(10, 0), (0, 0)], nb_elem = 1,
      id_to_pos = [None, None], id_free = [None, None]\<rparr> 20 =
    Inr \<lparr>capacity = 2, elements = [(20, 1), (10, 0)], nb_elem = 2,
      id_to_pos = [None, None], id_free = [None, None]\<rparr>"
  by (simp add: run_defs store_5_3_8_def cong: bindE_weak_cong)

lemma run_cap2_pop: "pop store_5_3_8
     \<lparr>capacity = 2, elements = [(20, 1), (10, 0)], nb_elem = 2,
      id_to_pos = [None, None], id_free = [None, None]\<rparr> =
    Some (Inr (\<lparr>capacity = 2, elements = [(10, 0), (10, 0)], nb_elem = 1,
      id_to_pos = [None, None], id_free = [None, None]\<rparr>, 20))"
  by (simp add: run_defs pop_def pop_front_def pop_return_def store_5_3_8_def
      cong: bindE_weak_cong)

lemma run_cap3_push_5: "push store_5_3_8
     \<lparr>capacity = 3, elements = [(0, 0), (0, 0), (0, 0)], nb_elem = 0,
      id_to_pos = [None, None, None], id_free = [None, None, None]\<rparr> 10 =
    Inr \<lparr>capacity = 3, elements = [(10, 0), (0, 0), (0, 0)], nb_elem = 1,
      id_to_pos = [None, None, None], id_free = [None, None, None]\<rparr>"
  by (simp add: run_defs store_5_3_8_def cong: bindE_weak_cong)

lemma run_cap3_push_3: "push store_5_3_8
     \<lparr>capacity = 3, elements = [(10, 0), (0, 0), (0, 0)], nb_elem = 1,
      id_to_pos = [None, None, None], id_free = [None, None, None]\<rparr> 20 =
    Inr \<lparr>capacity = 3, elements = [(20, 1), (10, 0), (0, 0)], nb_elem = 2,
      id_to_pos = [None, None, None], id_free = [None, None, None]\<rparr>"
  by (simp add: run_defs store_5_3_8_def cong: bindE_weak_cong)

lemma run_cap3_push_8: "push store_5_3_8
     \<lparr>capacity = 3, elements = [(20, 1), (10, 0), (0, 0)], nb_elem = 2,
      id_to_pos = [None, None, None], id_free = [None, None, None]\<rparr> 30 =
    Inl AssertionFailed"
  by (simp add: run_defs store_5_3_8_def cong: bindE_weak_cong)

lemma run_cap3_pop_empty: "pop store_5_3_8
     \<lparr>capacity = 3, elements = [(0, 0), (0, 0), (0, 0)], nb_elem = 0,
      id_to_pos = [None, None, None], id_free = [None, None, None]\<rparr> =
    Some (Inl OutOfBounds)"
  by (simp add: run_defs pop_def pop_front_def cong: bindE_weak_cong)

lemma run_5_10_push_5: "push store_5_10
     \<lparr>capacity = 2, elements = [(0, 0), (0, 0)], nb_elem = 0,
      id_to_pos = [None, None], id_free = [None, None]\<rparr> 10 =
    Inr \<lparr>capacity = 2, elements = [(10, 0), (0, 0)], nb_elem = 1,
      id_to_pos = [None, None], id_free = [None, None]\<rparr>"
  by (simp add: run_defs store_5_10_def cong: bindE_weak_cong)

lemma run_5_10_push_10: "push store_5_10
     \<lparr>capacity = 2, elements = [(10, 0), (0, 0)], nb_elem = 1,
      id_to_pos = [None, None], id_free = [None, None]\<rparr> 20 =
    Inr \<lparr>capacity = 2, elements = [(10, 0), (20, 1)], nb_elem = 2,
      id_to_pos = [None, None], id_free = [None, None]\<rparr>"
  by (simp add: run_defs store_5_10_def cong: bindE_weak_cong)

lemma run_pop_3_5_8: "pop store_5_3_8
     \<lparr>capacity = 3, elements = [(20, 0), (10, 1), (30, 2)], nb_elem = 3,
      id_to_pos = [None, None, None], id_free = [None, None, None]\<rparr> =
    Some (Inr (\<lparr>capacity = 3, elements = [(30, 2), (10, 1), (30, 2)], nb_elem = 2,
      id_to_pos = [None, None, None], id_free = [None, None, None]\<rparr>, 20))"
  by (simp add: run_defs pop_def pop_front_def pop_return_def store_5_3_8_def
      cong: bindE_weak_cong)

lemma heap_3_5_8_ordered: "heap_order store_5_3_8
     \<lparr>capacity = 3, elements = [(20, 0), (10, 1), (30, 2)], nb_elem = 3,
      id_to_pos = [None, None, None], id_free = [None, None, None]\<rparr>"
  by (simp add: heap_order_def value_at_def elem_read_def deref_def store_5_3_8_def
      atLeastLessThan_upt upt_rec)

lemma heap_8_5_not_ordered: "\<not> heap_order store_5_3_8
     \<lparr>capacity = 3, elements = [(30, 2), (10, 1), (30, 2)], nb_elem = 2,
      id_to_pos = [None, None, None], id_free = [None, None, None]\<rparr>"
  by (simp add: heap_order_def value_at_def elem_read_def deref_def store_5_3_8_def
      atLeastLessThan_upt upt_rec)

lemma heap_5_10_ordered: "heap_order store_5_10
     \<lparr>capacity = 2, elements = [(10, 0), (20, 1)], nb_elem = 2,
      id_to_pos = [None, None], id_free = [None, None]\<rparr>"
  by (simp add: heap_order_def value_at_def elem_read_def deref_def store_5_10_def
      atLeastLessThan_upt upt_rec)

lemma heap_5_0_not_ordered: "\<not> heap_order (store_5_10(20 \<mapsto> 0))
     \<lparr>capacity = 2, elements = [(10, 0), (20, 1)], nb_elem = 2,
      id_to_pos = [None, None], id_free = [None, None]\<rparr>"
  by (simp add: heap_order_def value_at_def elem_read_def deref_def store_5_10_def
      atLeastLessThan_upt upt_rec)

lemma run_lower_8_5: "lower store_5_3_8
     \<lparr>capacity = 3, elements = [(30, 2), (10, 1), (30, 2)], nb_elem = 2,
      id_to_pos = [None, None, None], id_free = [None, None, None]\<rparr> 0 =
    Some (Inr \<lparr>capacity = 3, elements = [(10, 1), (30, 2), (30, 2)], nb_elem = 2,
      id_to_pos = [None, None, None], id_free = [None, None, None]\<rparr>)"
proof -
  let ?h = "\<lparr>capacity = 3, elements = [(30, 2), (10, 1), (30, 2)], nb_elem = 2,
      id_to_pos = [None, None, None], id_free = [None, None, None]\<rparr>"
  have l: "live_ok store_5_3_8 ?h"
    by (simp add: live_ok_def store_5_3_8_def UINT_RANGE_def atLeastLessThan_upt upt_rec)
  have r: "2 * (0::nat) + 2 < UINT_RANGE"
    by (simp add: UINT_RANGE_def)
  have "lower store_5_3_8 ?h 0 = Some (Inr (exchange ?h 0 1))"
    using lower_stop [OF l _ r] by (simp add: val_def store_5_3_8_def)
  then show ?thesis
    by (simp add: exchange_def)
qed

lemma run_lower_20_10: "lower (store_5_10(10 \<mapsto> 20))
     \<lparr>capacity = 2, elements = [(10, 0), (20, 1)], nb_elem = 2,
      id_to_pos = [None, None], id_free = [None, None]\<rparr> 0 =
    Some (Inr \<lparr>capacity = 2, elements = [(20, 1), (10, 0)], nb_elem = 2,
      id_to_pos = [None, None], id_free = [None, None]\<rparr>)"
proof -
  let ?h = "\<lparr>capacity = 2, elements = [(10, 0), (20, 1)], nb_elem = 2,
      id_to_pos = [None, None], id_free = [None, None]\<rparr>"
  have l: "live_ok (store_5_10(10 \<mapsto> 20)) ?h"
    by (simp add: live_ok_def store_5_10_def UINT_RANGE_def atLeastLessThan_upt upt_rec)
  have r: "2 * (0::nat) + 2 < UINT_RANGE"
    by (simp add: UINT_RANGE_def)
  have "lower (store_5_10(10 \<mapsto> 20)) ?h 0 = Some (Inr (exchange ?h 0 1))"
    using lower_stop [OF l _ r] by (simp add: val_def store_5_10_def)
  then show ?thesis
    by (simp add: exchange_def)
qed

subsection \<open>Claims\<close>

text \<open>
  C1 (index consistency). The claim asks that \<open>id_to_pos[k]\<close> is the slot of every live
  id \<open>k\<close> and that every swap updates it for both ids it moves. Evaluated on a heap of
  capacity 2: the object at address 10 (value 5) is pushed, then the object at address 20
  (value 3), which \<open>raise\<close> swaps to the root. The ids 1 and 0 are then live at the
  slots 0 and 1, and both cells of \<open>id_to_pos\<close> are still as they were allocated: no
  method has written them.
\<close>

theorem id_to_pos_never_written:
  "Heap_Id_ctor 2 =
     Inr \<lparr>capacity = 2, elements = [(0, 0), (0, 0)], nb_elem = 0,
      id_to_pos = [None, None], id_free = [None, None]\<rparr> \<and>
   push store_5_3_8
     \<lparr>capacity = 2, elements = [(0, 0), (0, 0)], nb_elem = 0,
      id_to_pos = [None, None], id_free = [None, None]\<rparr> 10 =
     Inr \<lparr>capacity = 2, elements = [(10, 0), (0, 0)], nb_elem = 1,
      id_to_pos = [None, None], id_free = [None, None]\<rparr> \<and>
   push store_5_3_8
     \<lparr>capacity = 2, elements = [(10, 0), (0, 0)], nb_elem = 1,
      id_to_pos = [None, None], id_free = [None, None]\<rparr> 20 =
     Inr \<lparr>capacity = 2, elements = [(20, 1), (10, 0)], nb_elem = 2,
      id_to_pos = [None, None], id_free = [None, None]\<rparr>"
  by (simp only: ctor_2 run_cap2_push_5 run_cap2_push_3)

text \<open>
  C2 (heap-order invariant). The claim asks that every live index \<open>i > 0\<close> holds a value
  that is at least the value at \<open>(i - 1) div 2\<close>, after any sequence of \<open>push\<close>,
  \<open>pop\<close> and \<open>reposition\<close> calls on a fresh heap. Evaluated on two runs.
  First, a fresh heap of capacity 2 receives the objects at the addresses 10 (value 5)
  and 20 (value 10); the caller lowers the second value to 0 and calls \<open>reposition(1)\<close>:
  the heap comes back unchanged, with 5 at index 0 above 0 at index 1
  (\<open>heap_5_10_ordered\<close>, \<open>heap_5_0_not_ordered\<close>).
  Second, \<open>pop\<close> on the ordered heap that holds 3, 5, 8 (\<open>heap_3_5_8_ordered\<close>) moves
  the last node to the root, finds that no more than 2 elements remain and does not call
  \<open>lower\<close>: it leaves 8 at index 0 above 5 at index 1 (\<open>heap_8_5_not_ordered\<close>).
\<close>

theorem heap_order_broken_by_reposition_and_pop:
  "Heap_Id_ctor 2 =
     Inr \<lparr>capacity = 2, elements = [(0, 0), (0, 0)], nb_elem = 0,
      id_to_pos = [None, None], id_free = [None, None]\<rparr> \<and>
   calls store_5_10
     \<lparr>capacity = 2, elements = [(0, 0), (0, 0)], nb_elem = 0,
      id_to_pos = [None, None], id_free = [None, None]\<rparr> [Push 10, Push 20] =
     Some (Inr \<lparr>capacity = 2, elements = [(10, 0), (20, 1)], nb_elem = 2,
      id_to_pos = [None, None], id_free = [None, None]\<rparr>) \<and>
   calls (store_5_10(20 \<mapsto> 0))
     \<lparr>capacity = 2, elements = [(10, 0), (20, 1)], nb_elem = 2,
      id_to_pos = [None, None], id_free = [None, None]\<rparr> [Reposition 1] =
     Some (Inr \<lparr>capacity = 2, elements = [(10, 0), (20, 1)], nb_elem = 2,
      id_to_pos = [None, None], id_free = [None, None]\<rparr>) \<and>
   value_at (store_5_10(20 \<mapsto> 0))
     \<lparr>capacity = 2, elements = [(10, 0), (20, 1)], nb_elem = 2,
      id_to_pos = [None, None], id_free = [None, None]\<rparr> 0 = Inr 5 \<and>
   value_at (store_5_10(20 \<mapsto> 0))
     \<lparr>capacity = 2, elements = [(10, 0), (20, 1)], nb_elem = 2,
      id_to_pos = [None, None], id_free = [None, None]\<rparr> 1 = Inr 0 \<and>
   pop store_5_3_8
     \<lparr>capacity = 3, elements = [(20, 0), (10, 1), (30, 2)], nb_elem = 3,
      id_to_pos = [None, None, None], id_free = [None, None, None]\<rparr> =
     Some (Inr (\<lparr>capacity = 3, elements = [(30, 2), (10, 1), (30, 2)], nb_elem = 2,
      id_to_pos = [None, None, None], id_free = [None, None, None]\<rparr>, 20)) \<and>
   value_at store_5_3_8
     \<lparr>capacity = 3, elements = [(30, 2), (10, 1), (30, 2)], nb_elem = 2,
      id_to_pos = [None, None, None], id_free = [None, None, None]\<rparr> 0 = Inr 8 \<and>
   value_at store_5_3_8
     \<lparr>capacity = 3, elements = [(30, 2), (10, 1), (30, 2)], nb_elem = 2,
      id_to_pos = [None, None, None], id_free = [None, None, None]\<rparr> 1 = Inr 5"
proof -
  have "calls store_5_10
     \<lparr>capacity = 2, elements = [(0, 0), (0, 0)], nb_elem = 0,
      id_to_pos = [None, None], id_free = [None, None]\<rparr> [Push 10, Push 20] =
     Some (Inr \<lparr>capacity = 2, elements = [(10, 0), (20, 1)], nb_elem = 2,
      id_to_pos = [None, None], id_free = [None, None]\<rparr>)"
    by (simp only: calls.simps call_heap.simps run_5_10_push_5 run_5_10_push_10
        option.case sum.case)
  moreover note run_pop_3_5_8
  ultimately show ?thesis
    by (simp add: ctor_2 reposition_def value_at_def elem_read_def deref_def
        store_5_10_def store_5_3_8_def)
qed

text \<open>
  C3 (push postcondition). The claim asks that every \<open>push\<close> on a heap with
  \<open>count < capacity\<close> stores the element, raises it and returns its id. Evaluated on any
  heap that holds at least two elements and has room for one more: \<open>push\<close> stores the
  node at slot \<open>nb_elem\<close>, calls \<open>raise(nb_elem)\<close>, and the first evaluation of the loop
  condition calls \<open>get_pos_father(nb_elem)\<close>, whose assertion \<open>i < nb_elem - 2\<close> fails:
  the program aborts.
\<close>

theorem push_aborts_on_third_element:
  assumes "2 \<le> nb_elem h" "nb_elem h < UINT_RANGE" "nb_elem h < length (elements h)"
    and "mem v \<noteq> None"
  shows "push mem h v = Inl AssertionFailed"
  using assms by (rule push_third_Inl(2))

theorem push_aborts_on_third_element_witness:
  "2 \<le> nb_elem
     \<lparr>capacity = 3, elements = [(20, 1), (10, 0), (0, 0)], nb_elem = 2,
      id_to_pos = [None, None, None], id_free = [None, None, None]\<rparr> \<and>
   store_5_3_8 30 \<noteq> None \<and>
   push store_5_3_8
     \<lparr>capacity = 3, elements = [(20, 1), (10, 0), (0, 0)], nb_elem = 2,
      id_to_pos = [None, None, None], id_free = [None, None, None]\<rparr> 30 =
     Inl AssertionFailed"
proof -
  let ?h = "\<lparr>capacity = 3, elements = [(20, 1), (10, 0), (0, 0)], nb_elem = 2,
      id_to_pos = [None, None, None], id_free = [None, None, None]\<rparr>"
  have a: "2 \<le> nb_elem ?h" "nb_elem ?h < UINT_RANGE" "nb_elem ?h < length (elements ?h)"
    "store_5_3_8 30 \<noteq> None"
    by (simp_all add: UINT_RANGE_def store_5_3_8_def)
  from push_aborts_on_third_element [where h = ?h and mem = store_5_3_8 and v = 30, OF a] a
  show ?thesis
    by simp
qed

text \<open>
  C4 (min-extraction order). The claim asks that a heap populated with \<open>v1 .. vn\<close> gives
  them back in non-decreasing order. Evaluated for the three values 5, 3, 8 pushed into a
  fresh heap of capacity 3: the third \<open>push\<close> aborts on the assertion of
  \<open>get_pos_father\<close>, so the heap is never populated and nothing can be popped.
\<close>

theorem populate_three_aborts:
  "Heap_Id_ctor 3 =
     Inr \<lparr>capacity = 3, elements = [(0, 0), (0, 0), (0, 0)], nb_elem = 0,
      id_to_pos = [None, None, None], id_free = [None, None, None]\<rparr> \<and>
   push_all store_5_3_8
     \<lparr>capacity = 3, elements = [(0, 0), (0, 0), (0, 0)], nb_elem = 0,
      id_to_pos = [None, None, None], id_free = [None, None, None]\<rparr> [10, 20, 30] =
     Inl AssertionFailed"
  by (simp only: ctor_3 push_all.simps run_cap3_push_5 run_cap3_push_3 run_cap3_push_8
      bindE_Inr bindE_Inl simp_thms)

text \<open>
  C5 (reposition). The claim asks that \<open>reposition(id)\<close> restores heap order after the
  value of a live element has changed, and fails on an id that is not live. Evaluated on
  a heap of capacity 2 that holds the objects at the addresses 10 (value 5, id 0) and 20
  (value 10, id 1): the caller lowers the second value from 10 to 0 and calls
  \<open>reposition(1)\<close>. The heap comes back unchanged: the root is still the node of id 0,
  whose value 5 is above the value 0 at slot 1. \<open>reposition(7)\<close>, on an id that is not
  live, returns in the same way.
\<close>

theorem reposition_changes_nothing:
  "Heap_Id_ctor 2 =
     Inr \<lparr>capacity = 2, elements = [(0, 0), (0, 0)], nb_elem = 0,
      id_to_pos = [None, None], id_free = [None, None]\<rparr> \<and>
   calls store_5_10
     \<lparr>capacity = 2, elements = [(0, 0), (0, 0)], nb_elem = 0,
      id_to_pos = [None, None], id_free = [None, None]\<rparr> [Push 10, Push 20] =
     Some (Inr \<lparr>capacity = 2, elements = [(10, 0), (20, 1)], nb_elem = 2,
      id_to_pos = [None, None], id_free = [None, None]\<rparr>) \<and>
   reposition
     \<lparr>capacity = 2, elements = [(10, 0), (20, 1)], nb_elem = 2,
      id_to_pos = [None, None], id_free = [None, None]\<rparr> 1 =
     Inr \<lparr>capacity = 2, elements = [(10, 0), (20, 1)], nb_elem = 2,
      id_to_pos = [None, None], id_free = [None, None]\<rparr> \<and>
   elem_read
     \<lparr>capacity = 2, elements = [(10, 0), (20, 1)], nb_elem = 2,
      id_to_pos = [None, None], id_free = [None, None]\<rparr> 0 = Inr (10, 0) \<and>
   value_at (store_5_10(20 \<mapsto> 0))
     \<lparr>capacity = 2, elements = [(10, 0), (20, 1)], nb_elem = 2,
      id_to_pos = [None, None], id_free = [None, None]\<rparr> 0 = Inr 5 \<and>
   value_at (store_5_10(20 \<mapsto> 0))
     \<lparr>capacity = 2, elements = [(10, 0), (20, 1)], nb_elem = 2,
      id_to_pos = [None, None], id_free = [None, None]\<rparr> 1 = Inr 0 \<and>
   reposition
     \<lparr>capacity = 2, elements = [(10, 0), (20, 1)], nb_elem = 2,
      id_to_pos = [None, None], id_free = [None, None]\<rparr> 7 =
     Inr \<lparr>capacity = 2, elements = [(10, 0), (20, 1)], nb_elem = 2,
      id_to_pos = [None, None], id_free = [None, None]\<rparr>"
proof -
  have "calls store_5_10
     \<lparr>capacity = 2, elements = [(0, 0), (0, 0)], nb_elem = 0,
      id_to_pos = [None, None], id_free = [None, None]\<rparr> [Push 10, Push 20] =
     Some (Inr \<lparr>capacity = 2, elements = [(10, 0), (20, 1)], nb_elem = 2,
      id_to_pos = [None, None], id_free = [None, None]\<rparr>)"
    by (simp only: calls.simps call_heap.simps run_5_10_push_5 run_5_10_push_10
        option.case sum.case)
  then show ?thesis
    by (simp add: ctor_2 reposition_def elem_read_def value_at_def deref_def store_5_10_def)
qed

text \<open>
  C6 (push on a full heap). The claim asks that \<open>push\<close> on a heap with
  \<open>count == capacity\<close> is rejected and leaves the heap as it was. Evaluated on every
  heap whose array has \<open>capacity\<close> cells, all of them live: the first statement of
  \<open>push\<close>, the store \<open>elements[nb_elem].first = &v\<close>, is executed and is one cell past
  the end of the array.
\<close>

theorem push_on_full_heap_out_of_bounds:
  assumes "length (elements h) = capacity h" "nb_elem h = capacity h"
  shows "push mem h v = Inl OutOfBounds"
  using assms by (simp add: push_unfold)

theorem push_on_full_heap_out_of_bounds_witness:
  "Heap_Id_ctor 1 =
     Inr \<lparr>capacity = 1, elements = [(0, 0)], nb_elem = 0,
      id_to_pos = [None], id_free = [None]\<rparr> \<and>
   push store_5_3_8
     \<lparr>capacity = 1, elements = [(0, 0)], nb_elem = 0,
      id_to_pos = [None], id_free = [None]\<rparr> 10 =
     Inr \<lparr>capacity = 1, elements = [(10, 0)], nb_elem = 1,
      id_to_pos = [None], id_free = [None]\<rparr> \<and>
   set_first
     \<lparr>capacity = 1, elements = [(10, 0)], nb_elem = 1,
      id_to_pos = [None], id_free = [None]\<rparr> 1 20 =
     Inl OutOfBounds \<and>
   push store_5_3_8
     \<lparr>capacity = 1, elements = [(10, 0)], nb_elem = 1,
      id_to_pos = [None], id_free = [None]\<rparr> 20 =
     Inl OutOfBounds"
proof -
  let ?f = "\<lparr>capacity = 1, elements = [(10, 0)], nb_elem = 1,
      id_to_pos = [None], id_free = [None]\<rparr>"
  have "length (elements ?f) = capacity ?f" "nb_elem ?f = capacity ?f"
    by simp_all
  then have a: "push store_5_3_8 ?f 20 = Inl OutOfBounds"
    by (rule push_on_full_heap_out_of_bounds)
  have b: "set_first ?f 1 20 = Inl OutOfBounds"
    by (simp add: set_first_def elem_read_def)
  from a b ctor_1 run_cap1_push_5 show ?thesis
    by (simp only: simp_thms)
qed

text \<open>
  C7 (pop on an empty heap). The claim asks that \<open>pop\<close> on a heap with \<open>count == 0\<close>
  is rejected and leaves the heap as it was. Evaluated on every empty heap whose array
  has fewer than \<open>2^32\<close> cells: \<open>pop\<close> reads \<open>elements[nb_elem - 1]\<close>, where the
  unsigned \<open>nb_elem - 1\<close> has wrapped around to \<open>4294967295\<close>, outside the array.
\<close>

theorem pop_on_empty_heap_out_of_bounds:
  assumes "nb_elem h = 0" "length (elements h) < UINT_RANGE"
  shows "pop mem h = Some (Inl OutOfBounds)"
proof -
  from assms have "live_ok mem h"
    by (simp add: live_ok_def)
  then show ?thesis
    using assms(1) by (rule pop_empty)
qed

theorem pop_on_empty_heap_out_of_bounds_witness:
  "Heap_Id_ctor 3 =
     Inr \<lparr>capacity = 3, elements = [(0, 0), (0, 0), (0, 0)], nb_elem = 0,
      id_to_pos = [None, None, None], id_free = [None, None, None]\<rparr> \<and>
   usub (nb_elem
     \<lparr>capacity = 3, elements = [(0, 0), (0, 0), (0, 0)], nb_elem = 0,
      id_to_pos = [None, None, None], id_free = [None, None, None]\<rparr>) 1 = 4294967295 \<and>
   elem_read
     \<lparr>capacity = 3, elements = [(0, 0), (0, 0), (0, 0)], nb_elem = 0,
      id_to_pos = [None, None, None], id_free = [None, None, None]\<rparr> 4294967295 =
     Inl OutOfBounds \<and>
   pop store_5_3_8
     \<lparr>capacity = 3, elements = [(0, 0), (0, 0), (0, 0)], nb_elem = 0,
      id_to_pos = [None, None, None], id_free = [None, None, None]\<rparr> =
     Some (Inl OutOfBounds)"
proof -
  let ?e = "\<lparr>capacity = 3, elements = [(0, 0), (0, 0), (0, 0)], nb_elem = 0,
      id_to_pos = [None, None, None], id_free = [None, None, None]\<rparr>"
  have "nb_elem ?e = 0" "length (elements ?e) < UINT_RANGE"
    by (simp_all add: UINT_RANGE_def)
  then have a: "pop store_5_3_8 ?e = Some (Inl OutOfBounds)"
    by (rule pop_on_empty_heap_out_of_bounds)
  have b: "usub (nb_elem ?e) 1 = 4294967295" "elem_read ?e 4294967295 = Inl OutOfBounds"
    by (simp_all add: usub_def UINT_RANGE_def elem_read_def)
  from a b ctor_3 show ?thesis
    by (simp only: simp_thms)
qed

text \<open>
  C8 (construction), as amended. The constructor has no \<open>InvalidCapacity\<close> check: for
  every capacity, 0 included, it returns a heap with that capacity, no element, and three
  arrays of \<open>capacity\<close> cells.
\<close>

theorem ctor_always_succeeds:
  "\<exists>h. Heap_Id_ctor c = Inr h \<and> capacity h = c \<and> nb_elem h = 0 \<and>
     length (elements h) = c \<and> length (id_to_pos h) = c \<and> length (id_free h) = c"
  by (simp add: ctor_Inr)

text \<open>
  C8, the claim as stated: construction with capacity 0 fails with \<open>InvalidCapacity\<close>.
  It returns the heap with three empty arrays.
\<close>

theorem ctor_capacity_zero_counterexample:
  "Heap_Id_ctor 0 =
     Inr \<lparr>capacity = 0, elements = [], nb_elem = 0, id_to_pos = [], id_free = []\<rparr>"
  by (simp add: ctor_Inr)

text \<open>
  C9 (sift-down step policy). The claim asks that the lowering done by \<open>pop\<close> and by
  \<open>reposition\<close> compares a node whose only son is the left one with that son and swaps
  them if the son is smaller. \<open>lower\<close> itself does so (\<open>lower_step_policy\<close>), but
  neither method calls it there. Evaluated on two heaps.
  \<open>pop\<close> on the heap that holds 3, 5, 8 moves 8 to the root, where its only son is 5 at
  index 1; \<open>pop\<close> calls \<open>lower\<close> only if more than 2 elements remain, so 8 stays
  above 5, while \<open>lower(0)\<close> on that state exchanges the two nodes.
  On the heap that holds 5 above 10, the caller raises the root's value to 20 and calls
  \<open>reposition(0)\<close>: the heap comes back unchanged, with 20 above 10, while \<open>lower(0)\<close>
  on that state exchanges the two nodes.
\<close>

theorem pop_and_reposition_do_not_lower:
  "pop store_5_3_8
     \<lparr>capacity = 3, elements = [(20, 0), (10, 1), (30, 2)], nb_elem = 3,
      id_to_pos = [None, None, None], id_free = [None, None, None]\<rparr> =
     Some (Inr (\<lparr>capacity = 3, elements = [(30, 2), (10, 1), (30, 2)], nb_elem = 2,
      id_to_pos = [None, None, None], id_free = [None, None, None]\<rparr>, 20)) \<and>
   value_at store_5_3_8
     \<lparr>capacity = 3, elements = [(30, 2), (10, 1), (30, 2)], nb_elem = 2,
      id_to_pos = [None, None, None], id_free = [None, None, None]\<rparr> 0 = Inr 8 \<and>
   value_at store_5_3_8
     \<lparr>capacity = 3, elements = [(30, 2), (10, 1), (30, 2)], nb_elem = 2,
      id_to_pos = [None, None, None], id_free = [None, None, None]\<rparr> 1 = Inr 5 \<and>
   lower store_5_3_8
     \<lparr>capacity = 3, elements = [(30, 2), (10, 1), (30, 2)], nb_elem = 2,
      id_to_pos = [None, None, None], id_free = [None, None, None]\<rparr> 0 =
     Some (Inr \<lparr>capacity = 3, elements = [(10, 1), (30, 2), (30, 2)], nb_elem = 2,
      id_to_pos = [None, None, None], id_free = [None, None, None]\<rparr>) \<and>
   reposition
     \<lparr>capacity = 2, elements = [(10, 0), (20, 1)], nb_elem = 2,
      id_to_pos = [None, None], id_free = [None, None]\<rparr> 0 =
     Inr \<lparr>capacity = 2, elements = [(10, 0), (20, 1)], nb_elem = 2,
      id_to_pos = [None, None], id_free = [None, None]\<rparr> \<and>
   value_at (store_5_10(10 \<mapsto> 20))
     \<lparr>capacity = 2, elements = [(10, 0), (20, 1)], nb_elem = 2,
      id_to_pos = [None, None], id_free = [None, None]\<rparr> 0 = Inr 20 \<and>
   value_at (store_5_10(10 \<mapsto> 20))
     \<lparr>capacity = 2, elements = [(10, 0), (20, 1)], nb_elem = 2,
      id_to_pos = [None, None], id_free = [None, None]\<rparr> 1 = Inr 10 \<and>
   lower (store_5_10(10 \<mapsto> 20))
     \<lparr>capacity = 2, elements = [(10, 0), (20, 1)], nb_elem = 2,
      id_to_pos = [None, None], id_free = [None, None]\<rparr> 0 =
     Some (Inr \<lparr>capacity = 2, elements = [(20, 1), (10, 0)], nb_elem = 2,
      id_to_pos = [None, None], id_free = [None, None]\<rparr>)"
proof -
  have v: "value_at store_5_3_8
     \<lparr>capacity = 3, elements = [(30, 2), (10, 1), (30, 2)], nb_elem = 2,
      id_to_pos = [None, None, None], id_free = [None, None, None]\<rparr> 0 = Inr 8"
    "value_at store_5_3_8
     \<lparr>capacity = 3, elements = [(30, 2), (10, 1), (30, 2)], nb_elem = 2,
      id_to_pos = [None, None, None], id_free = [None, None, None]\<rparr> 1 = Inr 5"
    "value_at (store_5_10(10 \<mapsto> 20))
     \<lparr>capacity = 2, elements = [(10, 0), (20, 1)], nb_elem = 2,
      id_to_pos = [None, None], id_free = [None, None]\<rparr> 0 = Inr 20"
    "value_at (store_5_10(10 \<mapsto> 20))
     \<lparr>capacity = 2, elements = [(10, 0), (20, 1)], nb_elem = 2,
      id_to_pos = [None, None], id_free = [None, None]\<rparr> 1 = Inr 10"
    by (simp_all add: value_at_def elem_read_def deref_def store_5_3_8_def store_5_10_def)
  have r: "reposition
     \<lparr>capacity = 2, elements = [(10, 0), (20, 1)], nb_elem = 2,
      id_to_pos = [None, None], id_free = [None, None]\<rparr> 0 =
     Inr \<lparr>capacity = 2, elements = [(10, 0), (20, 1)], nb_elem = 2,
      id_to_pos = [None, None], id_free = [None, None]\<rparr>"
    by (simp add: reposition_def)
  from v r run_pop_3_5_8 run_lower_8_5 run_lower_20_10 show ?thesis
    by (simp only: simp_thms)
qed

text \<open>
  C10 (ids), as amended. The id stored by a \<open>push\<close> that returns is the number of
  elements the heap held when \<open>push\<close> was called: the node \<open>(v, nb_elem)\<close> is at one of
  the slots \<open>0 .. nb_elem\<close> of the new state, and the new state holds one element more.
  Neither \<open>push\<close> nor \<open>pop\<close> writes \<open>id_free\<close>.
\<close>

theorem push_records_count_as_id:
  "(\<forall>h'. push mem h v = Inr h' \<longrightarrow>
      (\<exists>i\<le>nb_elem h. i < length (elements h') \<and> elements h' ! i = (v, nb_elem h)) \<and>
      nb_elem h' = uincr (nb_elem h) \<and> id_free h' = id_free h) \<and>
   (\<forall>h' r. pop mem h = Some (Inr (h', r)) \<longrightarrow> id_free h' = id_free h)"
proof (intro conjI impI allI)
  fix h'
  assume "push mem h v = Inr h'"
  note f = push_Inr [OF this]
  then obtain i where "i \<le> nb_elem h" "elements h' ! i = (v, nb_elem h)"
    by blast
  moreover from f have "nb_elem h < length (elements h')"
    by simp
  ultimately show "\<exists>i\<le>nb_elem h. i < length (elements h') \<and> elements h' ! i = (v, nb_elem h)"
    by (meson le_less_trans)
  from f show "nb_elem h' = uincr (nb_elem h)" "id_free h' = id_free h"
    by simp_all
next
  fix h' r
  assume "pop mem h = Some (Inr (h', r))"
  from pop_Inr [OF this] show "id_free h' = id_free h"
    by simp
qed

theorem push_records_count_as_id_witness:
  "push store_5_3_8
     \<lparr>capacity = 2, elements = [(10, 0), (0, 0)], nb_elem = 1,
      id_to_pos = [None, None], id_free = [None, None]\<rparr> 20 =
     Inr \<lparr>capacity = 2, elements = [(20, 1), (10, 0)], nb_elem = 2,
      id_to_pos = [None, None], id_free = [None, None]\<rparr> \<and>
   (\<exists>i\<le>1. elements
     \<lparr>capacity = 2, elements = [(20, 1), (10, 0)], nb_elem = 2,
      id_to_pos = [None, None], id_free = [None, None]\<rparr> ! i = (20, 1))"
proof -
  let ?h = "\<lparr>capacity = 2, elements = [(10, 0), (0, 0)], nb_elem = 1,
      id_to_pos = [None, None], id_free = [None, None]\<rparr>"
  let ?h' = "\<lparr>capacity = 2, elements = [(20, 1), (10, 0)], nb_elem = 2,
      id_to_pos = [None, None], id_free = [None, None]\<rparr>"
  note p = run_cap2_push_3
  from push_records_count_as_id [where h = ?h and mem = store_5_3_8 and v = 20] p
  have "\<exists>i\<le>nb_elem ?h. i < length (elements ?h') \<and> elements ?h' ! i = (20, nb_elem ?h)"
    by blast
  then have "\<exists>i\<le>1. elements ?h' ! i = (20, 1)"
    by auto
  with p show ?thesis
    by (simp only: simp_thms)
qed

text \<open>
  C10, the claim as stated: the n-th successful \<open>push\<close> since construction, counting
  from 0, records id n, whatever was popped before. On a heap of capacity 1, after
  \<open>push\<close>, \<open>pop\<close>, the second \<open>push\<close> (n = 1) records id 0.
\<close>

theorem second_push_after_pop_counterexample:
  "Heap_Id_ctor 1 =
     Inr \<lparr>capacity = 1, elements = [(0, 0)], nb_elem = 0,
      id_to_pos = [None], id_free = [None]\<rparr> \<and>
   calls store_5_3_8
     \<lparr>capacity = 1, elements = [(0, 0)], nb_elem = 0,
      id_to_pos = [None], id_free = [None]\<rparr> [Push 10, Pop, Push 20] =
     Some (Inr \<lparr>capacity = 1, elements = [(20, 0)], nb_elem = 1,
      id_to_pos = [None], id_free = [None]\<rparr>)"
  by (simp only: ctor_1 calls.simps call_heap.simps run_cap1_push_5 run_cap1_pop
      run_cap1_push_3 option.case sum.case prod.case simp_thms)

end
